theory Spec2Isabelle
  imports Complex_Main
begin

section \<open>Numbers of the program\<close>

text \<open>
  The program computes on numpy arrays of 64-bit floats. A float is modelled as a real number
  or one of the three non-finite values; the arithmetic below is IEEE 754's on those values
  with rounding, overflow, underflow and the sign of zero left out (every zero is +0). What
  the model keeps is what the program's control flow depends on: division by zero, the
  propagation of NaN, and comparisons with NaN being false.
\<close>

datatype fl = Fin real | PInf | NInf | NaN

fun isnan :: "fl \<Rightarrow> bool" where
  "isnan NaN = True"
| "isnan _ = False"

fun isfinite :: "fl \<Rightarrow> bool" where
  "isfinite (Fin _) = True"
| "isfinite _ = False"

instantiation fl :: "{plus, uminus, minus, times, divide, ord}"
begin

fun plus_fl :: "fl \<Rightarrow> fl \<Rightarrow> fl" where
  "plus_fl (Fin a) (Fin b) = Fin (a + b)"
| "plus_fl NaN _ = NaN"
| "plus_fl _ NaN = NaN"
| "plus_fl PInf NInf = NaN"
| "plus_fl NInf PInf = NaN"
| "plus_fl PInf _ = PInf"
| "plus_fl _ PInf = PInf"
| "plus_fl NInf _ = NInf"
| "plus_fl _ NInf = NInf"

fun uminus_fl :: "fl \<Rightarrow> fl" where
  "uminus_fl (Fin a) = Fin (- a)"
| "uminus_fl PInf = NInf"
| "uminus_fl NInf = PInf"
| "uminus_fl NaN = NaN"

definition minus_fl :: "fl \<Rightarrow> fl \<Rightarrow> fl" where
  "minus_fl a b = a + (- b)"

fun times_fl :: "fl \<Rightarrow> fl \<Rightarrow> fl" where
  "times_fl (Fin a) (Fin b) = Fin (a * b)"
| "times_fl NaN _ = NaN"
| "times_fl _ NaN = NaN"
| "times_fl (Fin a) PInf = (if a = 0 then NaN else if 0 < a then PInf else NInf)"
| "times_fl (Fin a) NInf = (if a = 0 then NaN else if 0 < a then NInf else PInf)"
| "times_fl PInf (Fin b) = (if b = 0 then NaN else if 0 < b then PInf else NInf)"
| "times_fl NInf (Fin b) = (if b = 0 then NaN else if 0 < b then NInf else PInf)"
| "times_fl PInf PInf = PInf"
| "times_fl NInf NInf = PInf"
| "times_fl PInf NInf = NInf"
| "times_fl NInf PInf = NInf"

fun divide_fl :: "fl \<Rightarrow> fl \<Rightarrow> fl" where
  "divide_fl (Fin a) (Fin b) =
     (if b = 0 then (if a = 0 then NaN else if 0 < a then PInf else NInf) else Fin (a / b))"
| "divide_fl NaN _ = NaN"
| "divide_fl _ NaN = NaN"
| "divide_fl (Fin a) _ = Fin 0"
| "divide_fl PInf (Fin b) = (if 0 \<le> b then PInf else NInf)"
| "divide_fl NInf (Fin b) = (if 0 \<le> b then NInf else PInf)"
| "divide_fl _ _ = NaN"

fun less_fl :: "fl \<Rightarrow> fl \<Rightarrow> bool" where
  "less_fl (Fin a) (Fin b) = (a < b)"
| "less_fl NaN _ = False"
| "less_fl _ NaN = False"
| "less_fl _ NInf = False"
| "less_fl PInf _ = False"
| "less_fl _ _ = True"

fun less_eq_fl :: "fl \<Rightarrow> fl \<Rightarrow> bool" where
  "less_eq_fl (Fin a) (Fin b) = (a \<le> b)"
| "less_eq_fl NaN _ = False"
| "less_eq_fl _ NaN = False"
| "less_eq_fl NInf _ = True"
| "less_eq_fl _ PInf = True"
| "less_eq_fl _ _ = False"

instance ..

end

instantiation fl :: inverse
begin

definition inverse_fl :: "fl \<Rightarrow> fl" where
  "inverse_fl a = Fin 1 div a"

instance ..

end

text \<open>\<open>x ** 2\<close>, \<open>np.square\<close>, \<open>np.sqrt\<close>, \<open>np.exp\<close>, \<open>np.log\<close> and \<open>abs\<close>.\<close>

definition fl_sq :: "fl \<Rightarrow> fl" where
  "fl_sq a = a * a"

fun fl_sqrt :: "fl \<Rightarrow> fl" where
  "fl_sqrt (Fin a) = (if 0 \<le> a then Fin (sqrt a) else NaN)"
| "fl_sqrt PInf = PInf"
| "fl_sqrt _ = NaN"

fun fl_exp :: "fl \<Rightarrow> fl" where
  "fl_exp (Fin a) = Fin (exp a)"
| "fl_exp PInf = PInf"
| "fl_exp NInf = Fin 0"
| "fl_exp NaN = NaN"

fun fl_log :: "fl \<Rightarrow> fl" where
  "fl_log (Fin a) = (if a = 0 then NInf else if 0 < a then Fin (ln a) else NaN)"
| "fl_log PInf = PInf"
| "fl_log _ = NaN"

fun fl_abs :: "fl \<Rightarrow> fl" where
  "fl_abs (Fin a) = Fin \<bar>a\<bar>"
| "fl_abs NaN = NaN"
| "fl_abs _ = PInf"

text \<open>\<open>np.sum\<close> and \<open>np.mean\<close> of a vector. The mean of no values is \<open>0 / 0\<close>, NaN.\<close>

definition fl_sum :: "fl list \<Rightarrow> fl" where
  "fl_sum xs = foldl (+) (Fin 0) xs"

definition fl_mean :: "fl list \<Rightarrow> fl" where
  "fl_mean xs = fl_sum xs / Fin (real (length xs))"

section \<open>Errors\<close>

text \<open>
  The exceptions the program can raise. \<open>ShapeMismatch\<close> marks a call whose arrays do not
  have the lengths the functions expect (numpy raises or broadcasts there, depending on the
  shapes); the model does not follow such a call further. \<open>RegressorError\<close> is whatever a
  regressor's \<open>fit\<close> or \<open>predict\<close> raises.
\<close>

datatype py_error = ValueError | IndexError | UnboundLocalError | RegressorError | ShapeMismatch

definition ebind :: "py_error + 'a \<Rightarrow> ('a \<Rightarrow> py_error + 'b) \<Rightarrow> py_error + 'b" where
  "ebind r f = (case r of Inl e \<Rightarrow> Inl e | Inr v \<Rightarrow> f v)"

section \<open>Arrays\<close>

text \<open>
  A two-dimensional array keeps its number of columns beside its rows, as numpy's shape does
  (an array of no rows still has a width).
\<close>

record mat =
  ncols :: nat
  rws :: "fl list list"

definition wf_mat :: "mat \<Rightarrow> bool" where
  "wf_mat m = list_all (\<lambda>r. length r = ncols m) (rws m)"

text \<open>
  \<open>np.argmin\<close> of a vector: the running minimum is replaced only by a strictly smaller
  value, a NaN is minimal and ends the scan, and an empty vector raises.
\<close>

fun argmin_loop :: "fl list \<Rightarrow> nat \<Rightarrow> fl \<Rightarrow> nat \<Rightarrow> nat" where
  "argmin_loop [] i mp mi = mi"
| "argmin_loop (x # xs) i mp mi =
     (if isnan mp then mi
      else if \<not> (mp \<le> x) then argmin_loop xs (Suc i) x i
      else argmin_loop xs (Suc i) mp mi)"

definition argmin :: "fl list \<Rightarrow> py_error + nat" where
  "argmin xs = (case xs of [] \<Rightarrow> Inl ValueError | x # rest \<Rightarrow> Inr (argmin_loop rest 1 x 0))"

fun argmax_loop :: "fl list \<Rightarrow> nat \<Rightarrow> fl \<Rightarrow> nat \<Rightarrow> nat" where
  "argmax_loop [] i mp mi = mi"
| "argmax_loop (x # xs) i mp mi =
     (if isnan mp then mi
      else if \<not> (x \<le> mp) then argmax_loop xs (Suc i) x i
      else argmax_loop xs (Suc i) mp mi)"

definition argmax :: "fl list \<Rightarrow> py_error + nat" where
  "argmax xs = (case xs of [] \<Rightarrow> Inl ValueError | x # rest \<Rightarrow> Inr (argmax_loop rest 1 x 0))"

text \<open>Running a fallible function over a list, stopping at the first error.\<close>

fun emap :: "('a \<Rightarrow> py_error + 'b) \<Rightarrow> 'a list \<Rightarrow> py_error + 'b list" where
  "emap f [] = Inr []"
| "emap f (x # xs) =
     (case f x of Inl e \<Rightarrow> Inl e
      | Inr v \<Rightarrow> (case emap f xs of Inl e \<Rightarrow> Inl e | Inr vs \<Rightarrow> Inr (v # vs)))"

text \<open>
  \<open>np.argmin(scores, axis=1)\<close>: one index per row. The width is checked first, so an array
  of width 0 raises even when it has no rows.
\<close>

definition argmin_axis1 :: "mat \<Rightarrow> py_error + int list" where
  "argmin_axis1 m =
     (if ncols m = 0 then Inl ValueError
      else emap (\<lambda>r. case argmin r of Inl e \<Rightarrow> Inl e | Inr j \<Rightarrow> Inr (int j)) (rws m))"

section \<open>Label reassignment\<close>

text \<open>
  \<open>a[mask]\<close> for a boolean mask \<open>constr == c_id\<close> (the rows of the group), and the assignment
  \<open>labels[constr == c_id] = v\<close>.
\<close>

definition select :: "int list \<Rightarrow> int \<Rightarrow> 'a list \<Rightarrow> 'a list" where
  "select keys c xs = map snd (filter (\<lambda>(g, x). g = c) (zip keys xs))"

definition mask_assign :: "int list \<Rightarrow> int \<Rightarrow> int \<Rightarrow> int list \<Rightarrow> int list" where
  "mask_assign keys c v labels = map (\<lambda>(g, l). if g = c then v else l) (zip keys labels)"

text \<open>\<open>np.mean(sub, axis=0)\<close> of an array of width \<open>k\<close>: the mean of every column.\<close>

definition mean_axis0 :: "nat \<Rightarrow> fl list list \<Rightarrow> fl list" where
  "mean_axis0 k sub = map (\<lambda>j. fl_mean (map (\<lambda>r. r ! j) sub)) [0..<k]"

text \<open>
  \<open>constr\<close> is an array of 64-bit integers, so its entries lie in \<open>[-2\<^sup>6\<^sup>3, 2\<^sup>6\<^sup>3)\<close>.
  \<open>constr.max()\<close> (the caller has excluded the empty array) is a 64-bit integer too, and
  \<open>constr.max() + 1\<close> is computed in 64 bits: past \<open>2\<^sup>6\<^sup>3 - 1\<close> it wraps around to \<open>-2\<^sup>6\<^sup>3\<close>.
\<close>

definition array_max :: "int list \<Rightarrow> int" where
  "array_max cs = fold max (tl cs) (hd cs)"

definition int64 :: "int \<Rightarrow> int" where
  "int64 x = (x + 2 ^ 63) mod 2 ^ 64 - 2 ^ 63"

text \<open>
  The loop of \<open>reassign_labels\<close> over \<open>c_id\<close> in \<open>range(constr.max() + 1)\<close>, which is empty
  when \<open>constr.max() + 1\<close> is not positive. A mask of another length than the array it indexes
  raises \<open>IndexError\<close>.
\<close>

fun constr_loop :: "mat \<Rightarrow> int list \<Rightarrow> int list \<Rightarrow> int list \<Rightarrow> py_error + int list" where
  "constr_loop scores constr [] labels = Inr labels"
| "constr_loop scores constr (c_id # rest) labels =
     (if length constr \<noteq> length (rws scores) then Inl IndexError
      else case argmin (mean_axis0 (ncols scores) (select constr c_id (rws scores))) of
             Inl e \<Rightarrow> Inl e
           | Inr a \<Rightarrow> constr_loop scores constr rest (mask_assign constr c_id (int a) labels))"

text \<open>
  \<open>reassign_labels(scores, constr)\<close>. \<open>np.empty\<close> returns a buffer that holds whatever the
  memory held: the first argument gives that content, index by index. \<open>np.int\<close> is read as
  the alias of Python's \<open>int\<close> it was when the program was written (numpy before 1.24).
\<close>

definition reassign_labels :: "(nat \<Rightarrow> int) \<Rightarrow> mat \<Rightarrow> int list option \<Rightarrow> py_error + int list" where
  "reassign_labels uninit scores constr =
     (case constr of
        None \<Rightarrow> argmin_axis1 scores
      | Some cs \<Rightarrow>
          (let labels = map uninit [0..<length (rws scores)] in
           if cs = [] then Inl ValueError
           else constr_loop scores cs (map int [0..<nat (int64 (array_max cs + 1))]) labels))"

text \<open>The label the loop computes for a group: the argmin of the group's mean score vector.\<close>

definition group_label :: "mat \<Rightarrow> int list \<Rightarrow> int \<Rightarrow> py_error + nat" where
  "group_label scores constr c =
     argmin (mean_axis0 (ncols scores) (select constr c (rws scores)))"

section \<open>Results\<close>

text \<open>
  What an optimizer returns: \<open>labels, models, weights, obj\<close>. The models are values of the
  regressor's type \<open>'m\<close>.
\<close>

type_synonym 'm result = "int list \<times> 'm list \<times> fl list \<times> fl"

fun obj_of :: "'m result \<Rightarrow> fl" where
  "obj_of (labels, models, weights, obj) = obj"


section \<open>What the program takes from outside\<close>

text \<open>
  The regressor is any object with \<open>fit\<close> and \<open>predict\<close>; \<open>fit\<close> mutates the object and returns
  it, so the model's \<open>fit\<close> returns the fitted value. \<open>clone\<close> is sklearn's: a fresh, unfitted
  copy with the same parameters. \<open>ridge\<close> is the default prototype \<open>Ridge(alpha=1e-5)\<close>.
  \<open>empty_int\<close> and \<open>empty_float\<close> give the content of the buffers \<open>np.empty\<close> returns
  (\<open>empty_float b i j\<close> is entry \<open>[i, j]\<close> of the \<open>b\<close>-th float buffer a call allocates).
  \<open>random_choice k n\<close> is \<open>np.random.choice(k, size=n)\<close> and \<open>random_rand n k\<close> is
  \<open>np.random.rand(n, k)\<close>; both read and advance the process-wide random state \<open>'s\<close>.
\<close>

record ('m, 's) env =
  fit :: "'m \<Rightarrow> mat \<Rightarrow> fl list \<Rightarrow> py_error + 'm"
  predict :: "'m \<Rightarrow> mat \<Rightarrow> py_error + fl list"
  clone :: "'m \<Rightarrow> 'm"
  ridge :: "'m"
  empty_int :: "nat \<Rightarrow> int"
  empty_float :: "nat \<Rightarrow> nat \<Rightarrow> nat \<Rightarrow> fl"
  random_choice :: "nat \<Rightarrow> nat \<Rightarrow> 's \<Rightarrow> int list \<times> 's"
  random_rand :: "nat \<Rightarrow> nat \<Rightarrow> 's \<Rightarrow> fl list list \<times> 's"

text \<open>\<open>np.empty((n, k))\<close> and \<open>np.empty(k)\<close> as the \<open>b\<close>-th buffer.\<close>

definition empty_mat :: "('m, 's) env \<Rightarrow> nat \<Rightarrow> nat \<Rightarrow> nat \<Rightarrow> fl list list" where
  "empty_mat e b n k = map (\<lambda>i. map (empty_float e b i) [0..<k]) [0..<n]"

definition empty_vec :: "('m, 's) env \<Rightarrow> nat \<Rightarrow> nat \<Rightarrow> fl list" where
  "empty_vec e b k = map (empty_float e b 0) [0..<k]"

section \<open>Steps shared by the two optimizers\<close>

text \<open>\<open>np.sum(labels == cl_idx)\<close>, \<open>X[labels == cl_idx]\<close>, and a column \<open>a[:, c]\<close>.\<close>

definition count_label :: "int list \<Rightarrow> nat \<Rightarrow> nat" where
  "count_label labels c = length (filter (\<lambda>l. l = int c) labels)"

definition select_rows :: "int list \<Rightarrow> nat \<Rightarrow> mat \<Rightarrow> mat" where
  "select_rows labels c X = \<lparr>ncols = ncols X, rws = select labels (int c) (rws X)\<rparr>"

definition col :: "nat \<Rightarrow> fl list list \<Rightarrow> fl list" where
  "col c m = map (\<lambda>r. r ! c) m"

text \<open>An \<open>n\<close>-row array from its columns.\<close>

definition rows_of_cols :: "nat \<Rightarrow> fl list list \<Rightarrow> fl list list" where
  "rows_of_cols n cols = map (\<lambda>i. map (\<lambda>c. c ! i) cols) [0..<n]"

text \<open>
  The refit loop both optimizers have: for every cluster index in turn, skip an empty cluster
  and fit the cluster's model on exactly the points labelled with it.
\<close>

fun fit_models ::
  "('m, 's) env \<Rightarrow> mat \<Rightarrow> fl list \<Rightarrow> int list \<Rightarrow> nat list \<Rightarrow> 'm list \<Rightarrow> py_error + 'm list" where
  "fit_models e X y labels [] models = Inr models"
| "fit_models e X y labels (cl_idx # rest) models =
     (if count_label labels cl_idx = 0 then fit_models e X y labels rest models
      else case fit e (models ! cl_idx) (select_rows labels cl_idx X) (select labels (int cl_idx) y) of
             Inl err \<Rightarrow> Inl err
           | Inr m \<Rightarrow> fit_models e X y labels rest (models[cl_idx := m]))"

text \<open>\<open>np.sum((X - center) ** 2, axis=1)\<close> for one row of \<open>X\<close>.\<close>

definition sq_dist :: "fl list \<Rightarrow> fl list \<Rightarrow> fl" where
  "sq_dist x center = fl_sum (map2 (\<lambda>a b. fl_sq (a - b)) x center)"

text \<open>
  \<open>predict\<close> on all of \<open>X\<close>; the result is stored into a column of \<open>N\<close> entries, so it has to
  have \<open>N\<close> entries.
\<close>

definition predict_all :: "('m, 's) env \<Rightarrow> 'm \<Rightarrow> mat \<Rightarrow> py_error + fl list" where
  "predict_all e m X =
     (case predict e m X of
        Inl err \<Rightarrow> Inl err
      | Inr p \<Rightarrow> if length p = length (rws X) then Inr p else Inl ShapeMismatch)"

section \<open>The loop with a convergence test\<close>

text \<open>
  Both optimizers run \<open>for it in range(max_iter): body; if test: break\<close>, where the test
  compares the state the body produced with the state it started from. \<open>loop_break\<close> is that
  loop; beside the final state it returns the number of iterations it has executed. An
  exception of the body ends the loop and the call.
\<close>

fun loop_break ::
  "('a \<Rightarrow> py_error + 'a) \<Rightarrow> ('a \<Rightarrow> 'a \<Rightarrow> bool) \<Rightarrow> nat \<Rightarrow> 'a \<Rightarrow> py_error + 'a \<times> nat" where
  "loop_break body test 0 st = Inr (st, 0)"
| "loop_break body test (Suc n) st =
     (case body st of
        Inl err \<Rightarrow> Inl err
      | Inr st' \<Rightarrow>
          if test st' st then Inr (st', 1)
          else (case loop_break body test n st' of
                  Inl err \<Rightarrow> Inl err
                | Inr (st'', j) \<Rightarrow> Inr (st'', Suc j)))"

text \<open>
  The state after \<open>j\<close> executions of the body with no \<open>break\<close> taken (the trace against which
  the loop is described), and whether the test holds between the states after \<open>j - 1\<close> and
  after \<open>j\<close> executions.
\<close>

fun iterate :: "('a \<Rightarrow> py_error + 'a) \<Rightarrow> nat \<Rightarrow> 'a \<Rightarrow> py_error + 'a" where
  "iterate body 0 st = Inr st"
| "iterate body (Suc j) st =
     (case iterate body j st of Inl err \<Rightarrow> Inl err | Inr st' \<Rightarrow> body st')"

definition test_at :: "('a \<Rightarrow> py_error + 'a) \<Rightarrow> ('a \<Rightarrow> 'a \<Rightarrow> bool) \<Rightarrow> 'a \<Rightarrow> nat \<Rightarrow> bool" where
  "test_at body test st0 j =
     (case (iterate body (j - 1) st0, iterate body j st0) of
        (Inr a, Inr b) \<Rightarrow> test b a
      | _ \<Rightarrow> False)"

section \<open>The hard optimizer \<open>clr\<close>\<close>

text \<open>
  One column of \<open>scores\<close>: the squared residuals of the cluster's model, plus, for a cluster
  that has points and when \<open>kmeans_X > 0\<close>, \<open>kmeans_X\<close> times the squared distance to the mean
  of the cluster's points.
\<close>

definition score_column ::
  "('m, 's) env \<Rightarrow> mat \<Rightarrow> fl list \<Rightarrow> fl \<Rightarrow> int list \<Rightarrow> 'm list \<Rightarrow> nat \<Rightarrow> py_error + fl list" where
  "score_column e X y kmeans_X labels models cl_idx =
     (case predict_all e (models ! cl_idx) X of
        Inl err \<Rightarrow> Inl err
      | Inr preds \<Rightarrow>
          (let scores = map2 (\<lambda>yi p. fl_sq (yi - p)) y preds in
           if count_label labels cl_idx = 0 then Inr scores
           else if Fin 0 < kmeans_X then
             (let center = mean_axis0 (ncols X) (rws (select_rows labels cl_idx X)) in
              Inr (map2 (\<lambda>s x. s + kmeans_X * sq_dist x center) scores (rws X)))
           else Inr scores))"

text \<open>
  \<open>np.allclose(labels, labels_prev)\<close> on two integer arrays of one length, with numpy's default
  tolerances: \<open>|a - b| \<le> atol + rtol * |b|\<close>, \<open>rtol = 1e-5\<close>, \<open>atol = 1e-8\<close>.
\<close>

definition isclose_int :: "int \<Rightarrow> int \<Rightarrow> bool" where
  "isclose_int a b = (\<bar>real_of_int a - real_of_int b\<bar> \<le> 1 / 10 ^ 8 + (1 / 10 ^ 5) * \<bar>real_of_int b\<bar>)"

definition allclose_labels :: "int list \<Rightarrow> int list \<Rightarrow> bool" where
  "allclose_labels a b = list_all2 isclose_int a b"

text \<open>The variables the loop of \<open>clr\<close> carries from one iteration to the next.\<close>

record 'm clr_state =
  c_labels :: "int list"
  c_models :: "'m list"
  c_scores :: mat

text \<open>
  The body of the loop up to the convergence test: rebuild the models, fill every column of
  \<open>scores\<close>, reassign the points.
\<close>

definition clr_iter ::
  "('m, 's) env \<Rightarrow> mat \<Rightarrow> fl list \<Rightarrow> nat \<Rightarrow> fl \<Rightarrow> int list option \<Rightarrow> 'm clr_state
     \<Rightarrow> py_error + 'm clr_state" where
  "clr_iter e X y k kmeans_X constr st =
     (case fit_models e X y (c_labels st) [0..<k] (c_models st) of
        Inl err \<Rightarrow> Inl err
      | Inr ms \<Rightarrow>
          (case emap (score_column e X y kmeans_X (c_labels st) ms) [0..<k] of
             Inl err \<Rightarrow> Inl err
           | Inr cols \<Rightarrow>
               (let sc = \<lparr>ncols = k, rws = rows_of_cols (length (rws X)) cols\<rparr> in
                case reassign_labels (empty_int e) sc constr of
                  Inl err \<Rightarrow> Inl err
                | Inr new \<Rightarrow> Inr \<lparr>c_labels = new, c_models = ms, c_scores = sc\<rparr>)))"

text \<open>
  The loop of \<open>clr\<close>: it stops early when \<open>np.allclose(labels, labels_prev)\<close> holds.
\<close>

definition clr_test :: "'m clr_state \<Rightarrow> 'm clr_state \<Rightarrow> bool" where
  "clr_test st' st = allclose_labels (c_labels st') (c_labels st)"

definition clr_loop ::
  "('m, 's) env \<Rightarrow> mat \<Rightarrow> fl list \<Rightarrow> nat \<Rightarrow> fl \<Rightarrow> int list option \<Rightarrow> nat \<Rightarrow> 'm clr_state
     \<Rightarrow> py_error + 'm clr_state \<times> nat" where
  "clr_loop e X y k kmeans_X constr max_iter st =
     loop_break (clr_iter e X y k kmeans_X constr) clr_test max_iter st"

text \<open>
  \<open>scores[np.arange(N), labels]\<close>: Python's indexing, where a negative index counts from the
  end and an index outside \<open>[-k, k)\<close> raises.
\<close>

definition pick :: "nat \<Rightarrow> fl list \<Rightarrow> int \<Rightarrow> py_error + fl" where
  "pick k row l =
     (if 0 \<le> l \<and> l < int k then Inr (row ! nat l)
      else if - int k \<le> l \<and> l < 0 then Inr (row ! nat (int k + l))
      else Inl IndexError)"

definition objective :: "mat \<Rightarrow> int list \<Rightarrow> py_error + fl" where
  "objective sc ls =
     (case emap (\<lambda>(row, l). pick (ncols sc) row l) (zip (rws sc) ls) of
        Inl err \<Rightarrow> Inl err
      | Inr vs \<Rightarrow> Inr (fl_mean vs))"

text \<open>
  The counts of the labels \<open>0 .. k - 1\<close>, divided by their sum (\<open>np.float\<close> read as the alias
  of Python's \<open>float\<close>, as \<open>np.int\<close> above).
\<close>

definition cluster_weights :: "nat \<Rightarrow> int list \<Rightarrow> fl list" where
  "cluster_weights k ls =
     (let counts = map (\<lambda>c. Fin (real (count_label ls c))) [0..<k]
      in map (\<lambda>w. w / fl_sum counts) counts)"

text \<open>
  \<open>clr(X, y, k, kmeans_X, constr, lr, max_iter, labels, verbose=0)\<close>. \<open>range(max_iter)\<close> is the
  natural number of iterations. The model follows a call whose \<open>y\<close> and \<open>labels\<close> have one
  entry per row of \<open>X\<close>; printing (\<open>verbose > 0\<close>) and the array \<open>preds\<close>, which only the
  printing reads, are left out.
\<close>

definition clr ::
  "('m, 's) env \<Rightarrow> mat \<Rightarrow> fl list \<Rightarrow> nat \<Rightarrow> fl \<Rightarrow> int list option \<Rightarrow> 'm option \<Rightarrow> nat
     \<Rightarrow> int list option \<Rightarrow> 's \<Rightarrow> py_error + 'm result \<times> 's" where
  "clr e X y k kmeans_X constr lr max_iter labels0 s =
     (let n = length (rws X) in
      if k = 0 \<and> 0 < n \<and> labels0 = None then Inl ValueError
      else
        (let (ls, s') = (case labels0 of None \<Rightarrow> random_choice e k n s | Some l \<Rightarrow> (l, s));
             proto = (case lr of None \<Rightarrow> ridge e | Some m \<Rightarrow> m);
             st0 = \<lparr>c_labels = ls, c_models = replicate k (clone e proto),
                    c_scores = \<lparr>ncols = k, rws = empty_mat e 0 n k\<rparr>\<rparr>
         in if \<not> wf_mat X \<or> length y \<noteq> n \<or> length ls \<noteq> n then Inl ShapeMismatch
            else case clr_loop e X y k kmeans_X constr max_iter st0 of
                   Inl err \<Rightarrow> Inl err
                 | Inr (st, iters) \<Rightarrow>
                     (case objective (c_scores st) (c_labels st) of
                        Inl err \<Rightarrow> Inl err
                      | Inr obj \<Rightarrow>
                          Inr ((c_labels st, c_models st, cluster_weights k (c_labels st), obj), s'))))"

text \<open>
  The test the claim speaks of, that two consecutive label arrays are identical; and the
  condition that a constraints array, if given, holds group ids in \<open>[0, 2\<^sup>6\<^sup>3 - 1)\<close> only, the ids
  the loop of \<open>reassign_labels\<close> reaches.
\<close>

definition same_labels :: "'m clr_state \<Rightarrow> 'm clr_state \<Rightarrow> bool" where
  "same_labels st' st = (c_labels st' = c_labels st)"

definition ids_reached :: "int list option \<Rightarrow> bool" where
  "ids_reached constr =
     (case constr of
        None \<Rightarrow> True
      | Some cs \<Rightarrow> list_all (\<lambda>c. 0 \<le> c \<and> c < 9223372036854775807) cs)"

section \<open>The fuzzy optimizer \<open>fuzzy_clr\<close>\<close>

text \<open>The variables the loop of \<open>fuzzy_clr\<close> carries from one iteration to the next.\<close>

record 'm fuzzy_state =
  f_q :: "fl list list"
  f_models :: "'m list"
  f_sigma_sq :: "fl list"
  f_lmbda :: "fl list"
  f_centers :: "fl list list"
  f_probs :: "fl list list"

text \<open>
  The M step for one cluster: the weighted fit on the rows of \<open>X\<close> and entries of \<open>y\<close> scaled
  by \<open>sqrt(q[:, c])\<close>, the center, the mixing weight and the variance. It returns the fitted
  model, \<open>centers[c]\<close>, \<open>lmbda[c]\<close> and \<open>sigma_sq[c]\<close>.
\<close>

definition m_step_cluster ::
  "('m, 's) env \<Rightarrow> mat \<Rightarrow> fl list \<Rightarrow> fl \<Rightarrow> fl list list \<Rightarrow> 'm list \<Rightarrow> nat
     \<Rightarrow> py_error + 'm \<times> fl list \<times> fl \<times> fl" where
  "m_step_cluster e X y kmeans_X qs ms cl_idx =
     (let qc = col cl_idx qs;
          q_sqrt = map fl_sqrt qc
      in case fit e (ms ! cl_idx)
                \<lparr>ncols = ncols X, rws = map2 (\<lambda>s row. map (\<lambda>x. s * x) row) q_sqrt (rws X)\<rparr>
                (map2 (*) q_sqrt y) of
           Inl err \<Rightarrow> Inl err
         | Inr m \<Rightarrow>
             (let q_sum = fl_sum qc;
                  center = map (\<lambda>d. fl_sum (map2 (\<lambda>qi row. qi * row ! d) qc (rws X)) / q_sum)
                             [0..<ncols X];
                  lam = q_sum / Fin (real (length (rws X)))
              in case predict_all e m X of
                   Inl err \<Rightarrow> Inl err
                 | Inr p \<Rightarrow>
                     Inr (m, center, lam,
                          fl_sum (map (\<lambda>(qi, yi, pr, x).
                                    qi * (fl_sq (yi - pr) + kmeans_X * sq_dist x center))
                                  (zip qc (zip y (zip p (rws X))))) / q_sum)))"

text \<open>The E step for one cluster: the column \<open>probs[:, c]\<close> of Gaussian likelihoods.\<close>

definition e_step_column ::
  "('m, 's) env \<Rightarrow> mat \<Rightarrow> fl list \<Rightarrow> fl \<Rightarrow> 'm list \<Rightarrow> fl list list \<Rightarrow> fl list \<Rightarrow> nat
     \<Rightarrow> py_error + fl list" where
  "e_step_column e X y kmeans_X ms cs sig cl_idx =
     (case predict_all e (ms ! cl_idx) X of
        Inl err \<Rightarrow> Inl err
      | Inr p \<Rightarrow>
          Inr (map (\<lambda>(yi, pr, x).
                 fl_exp ((- fl_sq (yi - pr) - kmeans_X * sq_dist x (cs ! cl_idx))
                         / (Fin 2 * sig ! cl_idx))
                 / fl_sqrt (Fin pi * Fin 2 * sig ! cl_idx))
               (zip y (zip p (rws X)))))"

text \<open>
  \<open>lmbda * probs\<close> (the row vector \<open>lmbda\<close> against every row), and
  \<open>q /= q.sum(axis=1, keepdims=True)\<close>.
\<close>

definition mix :: "fl list \<Rightarrow> fl list list \<Rightarrow> fl list list" where
  "mix lam ps = map (\<lambda>row. map2 (*) lam row) ps"

definition normalize_rows :: "fl list list \<Rightarrow> fl list list" where
  "normalize_rows qs = map (\<lambda>row. map (\<lambda>x. x / fl_sum row) row) qs"

text \<open>The body of the loop up to the convergence test: the M step, then the E step.\<close>

definition fuzzy_iter ::
  "('m, 's) env \<Rightarrow> mat \<Rightarrow> fl list \<Rightarrow> nat \<Rightarrow> fl \<Rightarrow> 'm fuzzy_state \<Rightarrow> py_error + 'm fuzzy_state" where
  "fuzzy_iter e X y k kmeans_X st =
     (case emap (m_step_cluster e X y kmeans_X (f_q st) (f_models st)) [0..<k] of
        Inl err \<Rightarrow> Inl err
      | Inr ms \<Rightarrow>
          (let models' = map fst ms;
               centers' = map (\<lambda>r. fst (snd r)) ms;
               lmbda' = map (\<lambda>r. fst (snd (snd r))) ms;
               sigma' = map (\<lambda>r. snd (snd (snd r))) ms
           in case emap (e_step_column e X y kmeans_X models' centers' sigma') [0..<k] of
                Inl err \<Rightarrow> Inl err
              | Inr pcols \<Rightarrow>
                  (let probs' = rows_of_cols (length (rws X)) pcols
                   in Inr \<lparr>f_q = normalize_rows (mix lmbda' probs'), f_models = models',
                           f_sigma_sq = sigma', f_lmbda = lmbda', f_centers = centers',
                           f_probs = probs'\<rparr>)))"

text \<open>
  \<open>np.allclose(q_prev, q, atol=1e-5)\<close>: numpy's \<open>isclose(a, b)\<close> is \<open>|a - b| \<le> atol + rtol * |b|\<close>
  on finite entries and \<open>a == b\<close> otherwise; the call passes \<open>atol\<close> and leaves \<open>rtol\<close> at its
  default \<open>1e-5\<close>.
\<close>

definition isclose :: "real \<Rightarrow> real \<Rightarrow> fl \<Rightarrow> fl \<Rightarrow> bool" where
  "isclose rtol atol a b =
     (case (a, b) of
        (Fin x, Fin y) \<Rightarrow> \<bar>x - y\<bar> \<le> atol + rtol * \<bar>y\<bar>
      | _ \<Rightarrow> a = b \<and> \<not> isnan a)"

definition allclose :: "real \<Rightarrow> real \<Rightarrow> fl list list \<Rightarrow> fl list list \<Rightarrow> bool" where
  "allclose rtol atol a b = list_all2 (list_all2 (isclose rtol atol)) a b"

definition fuzzy_test :: "'m fuzzy_state \<Rightarrow> 'm fuzzy_state \<Rightarrow> bool" where
  "fuzzy_test st' st = allclose (1 / 10 ^ 5) (1 / 10 ^ 5) (f_q st) (f_q st')"

definition fuzzy_loop ::
  "('m, 's) env \<Rightarrow> mat \<Rightarrow> fl list \<Rightarrow> nat \<Rightarrow> fl \<Rightarrow> nat \<Rightarrow> 'm fuzzy_state
     \<Rightarrow> py_error + 'm fuzzy_state \<times> nat" where
  "fuzzy_loop e X y k kmeans_X max_iter st =
     loop_break (fuzzy_iter e X y k kmeans_X) fuzzy_test max_iter st"

text \<open>\<open>-np.sum(np.log(np.sum(lmbda * probs, axis=1)))\<close> and \<open>np.argmax(q, axis=1)\<close>.\<close>

definition neg_loglike :: "fl list \<Rightarrow> fl list list \<Rightarrow> fl" where
  "neg_loglike lam ps = - fl_sum (map (\<lambda>row. fl_log (fl_sum row)) (mix lam ps))"

definition argmax_axis1 :: "nat \<Rightarrow> fl list list \<Rightarrow> py_error + int list" where
  "argmax_axis1 k qs =
     (if k = 0 then Inl ValueError
      else emap (\<lambda>r. case argmax r of Inl e \<Rightarrow> Inl e | Inr j \<Rightarrow> Inr (int j)) qs)"

text \<open>The state before the first iteration: the random \<open>q\<close>, row-normalized, and fresh buffers.\<close>

definition fuzzy_init ::
  "('m, 's) env \<Rightarrow> mat \<Rightarrow> nat \<Rightarrow> 'm option \<Rightarrow> fl list list \<Rightarrow> 'm fuzzy_state" where
  "fuzzy_init e X k lr rnd =
     \<lparr>f_q = normalize_rows rnd,
      f_models = replicate k (clone e (case lr of None \<Rightarrow> ridge e | Some m \<Rightarrow> m)),
      f_sigma_sq = empty_vec e 0 k, f_lmbda = empty_vec e 1 k,
      f_centers = empty_mat e 2 k (ncols X), f_probs = empty_mat e 3 (length (rws X)) k\<rparr>"

text \<open>
  \<open>fuzzy_clr(X, y, k, kmeans_X, max_iter, verbose=0, lr)\<close>. The model follows a call whose \<open>y\<close>
  has one entry per row of \<open>X\<close>; printing (\<open>verbose > 0\<close>) is left out.
\<close>

definition fuzzy_clr ::
  "('m, 's) env \<Rightarrow> mat \<Rightarrow> fl list \<Rightarrow> nat \<Rightarrow> fl \<Rightarrow> nat \<Rightarrow> 'm option \<Rightarrow> 's
     \<Rightarrow> py_error + 'm result \<times> 's" where
  "fuzzy_clr e X y k kmeans_X max_iter lr s =
     (let (rnd, s') = random_rand e (length (rws X)) k s
      in if \<not> wf_mat X \<or> length y \<noteq> length (rws X) then Inl ShapeMismatch
         else case fuzzy_loop e X y k kmeans_X max_iter (fuzzy_init e X k lr rnd) of
                Inl err \<Rightarrow> Inl err
              | Inr (st, iters) \<Rightarrow>
                  (let loglike = neg_loglike (f_lmbda st) (f_probs st)
                   in case argmax_axis1 k (f_q st) of
                        Inl err \<Rightarrow> Inl err
                      | Inr ls \<Rightarrow>
                          (case fit_models e X y ls [0..<k] (f_models st) of
                             Inl err \<Rightarrow> Inl err
                           | Inr ms \<Rightarrow> Inr ((ls, ms, f_lmbda st, loglike), s'))))"
text \<open>
  Two conditions on a row of \<open>q\<close>: before the division, that its entries are finite and
  non-negative and their sum is positive; after it, that the row sums to 1 and its entries
  are non-negative.
\<close>

definition normalizable :: "fl list \<Rightarrow> bool" where
  "normalizable row = (list_all (\<lambda>x. isfinite x \<and> Fin 0 \<le> x) row \<and> Fin 0 < fl_sum row)"

definition stochastic :: "fl list \<Rightarrow> bool" where
  "stochastic row = (fl_sum row = Fin 1 \<and> list_all (\<lambda>x. Fin 0 \<le> x) row)"

text \<open>
  The test the claim speaks of, with the absolute tolerance alone; and the state before the
  first iteration of a call from the random state \<open>s\<close>.
\<close>

definition fuzzy_test_abs :: "'m fuzzy_state \<Rightarrow> 'm fuzzy_state \<Rightarrow> bool" where
  "fuzzy_test_abs st' st = allclose 0 (1 / 10 ^ 5) (f_q st) (f_q st')"

definition fuzzy_start ::
  "('m, 's) env \<Rightarrow> mat \<Rightarrow> nat \<Rightarrow> 'm option \<Rightarrow> 's \<Rightarrow> 'm fuzzy_state" where
  "fuzzy_start e X k lr s = fuzzy_init e X k lr (fst (random_rand e (length (rws X)) k s))"

text \<open>
  Two more conditions. A row of \<open>lmbda * probs\<close> whose entries are finite and whose sum is
  positive; and a \<open>q\<close> of rows of \<open>k\<close> entries, none negative. The third is the condition on a
  whole run: each of the first \<open>j\<close> iterations returns, with finite rows of positive sum.
\<close>

definition finite_positive :: "fl list \<Rightarrow> bool" where
  "finite_positive row = (list_all isfinite row \<and> Fin 0 < fl_sum row)"

definition nonneg_rows :: "nat \<Rightarrow> fl list list \<Rightarrow> bool" where
  "nonneg_rows k qs = list_all (\<lambda>row. length row = k \<and> list_all (\<lambda>x. Fin 0 \<le> x) row) qs"

fun finite_trace ::
  "('m, 's) env \<Rightarrow> mat \<Rightarrow> fl list \<Rightarrow> nat \<Rightarrow> fl \<Rightarrow> nat \<Rightarrow> 'm fuzzy_state \<Rightarrow> bool" where
  "finite_trace e X y k kmeans_X 0 st0 = True"
| "finite_trace e X y k kmeans_X (Suc j) st0 =
     (finite_trace e X y k kmeans_X j st0 \<and>
      (case iterate (fuzzy_iter e X y k kmeans_X) (Suc j) st0 of
         Inl err \<Rightarrow> False
       | Inr st \<Rightarrow> list_all finite_positive (mix (f_lmbda st) (f_probs st))))"

section \<open>The multi-start driver\<close>

text \<open>
  The loop of \<open>best_clr\<close>. The optimizer \<open>clr_func\<close> stands for the call
  \<open>clr_func(X, y, k, **kwargs)\<close>: it reads and advances the process-wide random source (the
  state \<open>'s\<close>) and returns a result or raises. \<open>best_obj\<close> is bound from the start; the names
  \<open>best_labels\<close>, \<open>best_models\<close> and \<open>best_weights\<close> are bound together by the first try that
  is strictly better, so they are one optional triple.
\<close>

fun tries_loop ::
  "('s \<Rightarrow> py_error + 'm result \<times> 's) \<Rightarrow> nat \<Rightarrow> fl \<times> (int list \<times> 'm list \<times> fl list) option \<Rightarrow> 's
     \<Rightarrow> py_error + (fl \<times> (int list \<times> 'm list \<times> fl list) option) \<times> 's" where
  "tries_loop clr_func 0 best s = Inr (best, s)"
| "tries_loop clr_func (Suc n) (best_obj, best) s =
     (case clr_func s of
        Inl e \<Rightarrow> Inl e
      | Inr ((labels, models, weights, obj), s') \<Rightarrow>
          if obj < best_obj then tries_loop clr_func n (obj, Some (labels, models, weights)) s'
          else tries_loop clr_func n (best_obj, best) s')"

text \<open>
  \<open>best_clr(X, y, k, fuzzy, num_tries, **kwargs)\<close>, with the two optimizers already applied to
  \<open>X, y, k\<close> and the keyword arguments. \<open>range(num_tries)\<close> is empty for a negative number.
  Returning reads the three \<open>best_*\<close> names, which raises when no try has bound them.
\<close>

definition best_clr ::
  "('s \<Rightarrow> py_error + 'm result \<times> 's) \<Rightarrow> ('s \<Rightarrow> py_error + 'm result \<times> 's) \<Rightarrow> bool \<Rightarrow> int \<Rightarrow> 's
     \<Rightarrow> py_error + 'm result \<times> 's" where
  "best_clr clr_run fuzzy_run fuzzy num_tries s =
     (let clr_func = (if fuzzy then fuzzy_run else clr_run) in
      case tries_loop clr_func (nat num_tries) (PInf, None) s of
        Inl e \<Rightarrow> Inl e
      | Inr ((best_obj, best), s') \<Rightarrow>
          (case best of
             None \<Rightarrow> Inl UnboundLocalError
           | Some (best_labels, best_models, best_weights) \<Rightarrow>
               Inr ((best_labels, best_models, best_weights, best_obj), s')))"

text \<open>
  The individual runs a call of \<open>best_clr\<close> makes: \<open>n\<close> calls of the optimizer in sequence,
  each from the random state the one before left.
\<close>

fun runs :: "('s \<Rightarrow> py_error + 'm result \<times> 's) \<Rightarrow> nat \<Rightarrow> 's \<Rightarrow> py_error + 'm result list \<times> 's" where
  "runs clr_func 0 s = Inr ([], s)"
| "runs clr_func (Suc n) s =
     (case clr_func s of
        Inl e \<Rightarrow> Inl e
      | Inr (r, s') \<Rightarrow>
          (case runs clr_func n s' of Inl e \<Rightarrow> Inl e | Inr (rs, s'') \<Rightarrow> Inr (r # rs, s'')))"

text \<open>The update of the \<open>best_*\<close> variables by one finished run.\<close>

fun keep_better ::
  "fl \<times> (int list \<times> 'm list \<times> fl list) option \<Rightarrow> 'm result
     \<Rightarrow> fl \<times> (int list \<times> 'm list \<times> fl list) option" where
  "keep_better (best_obj, best) (labels, models, weights, obj) =
     (if obj < best_obj then (obj, Some (labels, models, weights)) else (best_obj, best))"

text \<open>The invariant of the loop, over the runs finished so far.\<close>

definition best_inv ::
  "'m result list \<Rightarrow> fl \<times> (int list \<times> 'm list \<times> fl list) option \<Rightarrow> bool" where
  "best_inv rs bb =
     (case bb of (best_obj, best) \<Rightarrow>
        \<not> isnan best_obj \<and> (\<forall>j<length rs. \<not> obj_of (rs ! j) < best_obj) \<and>
        (case best of
           None \<Rightarrow> best_obj = PInf
         | Some (l, m, w) \<Rightarrow>
             \<exists>i<length rs. rs ! i = (l, m, w, best_obj) \<and> best_obj < PInf \<and>
               (\<forall>j<i. \<not> obj_of (rs ! j) \<le> best_obj)))"

text \<open>
  A stand-in optimizer for the examples: the random state is the number of calls made so far,
  and call number \<open>i\<close> returns the label \<open>i\<close>, no models, no weights and the \<open>i\<close>-th objective of a
  given list (NaN beyond its end).
\<close>

definition scripted :: "fl list \<Rightarrow> nat \<Rightarrow> py_error + unit result \<times> nat" where
  "scripted objs i = Inr (([int i], [], [], if i < length objs then objs ! i else NaN), Suc i)"

section \<open>Regressors for the examples\<close>

text \<open>
  Two regressors a caller can pass as \<open>lr\<close>, with a random source and buffer contents fixed for
  the examples. The first predicts the mean of the targets it was last fitted on, and 0 while
  unfitted; the model is that mean, if any. The random state counts the draws.
\<close>

definition mean_env :: "(fl option, nat) env" where
  "mean_env =
     \<lparr>fit = (\<lambda>m X y. Inr (Some (fl_mean y))),
      predict = (\<lambda>m X. Inr (replicate (length (rws X)) (case m of None \<Rightarrow> Fin 0 | Some c \<Rightarrow> c))),
      clone = (\<lambda>m. None),
      ridge = None,
      empty_int = (\<lambda>i. 0),
      empty_float = (\<lambda>b i j. Fin 0),
      random_choice = (\<lambda>k n s. (map (\<lambda>i. int ((s + i) mod k)) [0..<n], s + n)),
      random_rand = (\<lambda>n k s. (replicate n (replicate k (Fin (1 / 2))), s + n * k))\<rparr>"

text \<open>
  The second predicts one constant whatever it is fitted on (sklearn's
  \<open>DummyRegressor(strategy="constant")\<close>); the model is the constant. \<open>np.random.rand\<close> returns
  the given array.
\<close>

definition const_env :: "fl list list \<Rightarrow> (fl, nat) env" where
  "const_env rnd =
     \<lparr>fit = (\<lambda>m X y. Inr m),
      predict = (\<lambda>m X. Inr (replicate (length (rws X)) m)),
      clone = (\<lambda>m. m),
      ridge = Fin 0,
      empty_int = (\<lambda>i. 0),
      empty_float = (\<lambda>b i j. Fin 0),
      random_choice = (\<lambda>k n s. (replicate n 0, s + n)),
      random_rand = (\<lambda>n k s. (rnd, s + n * k))\<rparr>"

text \<open>
  Data for the examples of \<open>fuzzy_clr\<close>: two points, and one point, with all features 0; random
  draws whose rows already sum to 1, the second row \<open>0.500024, 0.499976\<close>; and the Gaussian
  likelihood of a residual 1 under variance 1.
\<close>

definition two_points :: mat where
  "two_points = \<lparr>ncols = 2, rws = [[Fin 0, Fin 0], [Fin 0, Fin 0]]\<rparr>"

definition one_point :: mat where
  "one_point = \<lparr>ncols = 2, rws = [[Fin 0, Fin 0]]\<rparr>"

definition near_half :: "fl list list" where
  "near_half = [[Fin (1 / 2), Fin (1 / 2)], [Fin (62503 / 125000), Fin (62497 / 125000)]]"

definition unit_density :: real where
  "unit_density = exp (- (1 / 2)) / sqrt (pi * 2)"

section \<open>Properties of the arithmetic and of \<open>np.argmin\<close>\<close>

lemma fl_le_total: "\<not> isnan a \<Longrightarrow> \<not> isnan b \<Longrightarrow> a \<le> b \<or> b \<le> a"
  by (cases a; cases b) auto

lemma fl_le_trans: "(a::fl) \<le> b \<Longrightarrow> b \<le> c \<Longrightarrow> a \<le> c"
  by (cases a; cases b; cases c) auto

lemma fl_le_refl: "\<not> isnan a \<Longrightarrow> (a::fl) \<le> a"
  by (cases a) auto

lemma fl_not_le_less: "\<not> isnan a \<Longrightarrow> \<not> isnan b \<Longrightarrow> (\<not> a \<le> b) = (b < a)"
  by (cases a; cases b) auto

lemma fl_less_le: "(a::fl) < b \<Longrightarrow> a \<le> b"
  by (cases a; cases b) auto

lemma fl_less_le_trans: "(a::fl) < b \<Longrightarrow> b \<le> c \<Longrightarrow> a < c"
  by (cases a; cases b; cases c) auto

lemma argmin_loop_bound: "mi < i \<Longrightarrow> argmin_loop xs i mp mi < i + length xs"
  by (induction xs i mp mi rule: argmin_loop.induct) auto

lemma argmin_loop_first_min:
  assumes "\<forall>x\<in>set (pre @ xs). \<not> isnan x"
    and "mi < length pre" and "mp = pre ! mi"
    and "\<forall>j<length pre. mp \<le> pre ! j"
    and "\<forall>j<mi. mp < pre ! j"
  shows "argmin_loop xs (length pre) mp mi < length (pre @ xs) \<and>
         (\<forall>j<length (pre @ xs). (pre @ xs) ! argmin_loop xs (length pre) mp mi \<le> (pre @ xs) ! j) \<and>
         (\<forall>j<argmin_loop xs (length pre) mp mi. 
             (pre @ xs) ! argmin_loop xs (length pre) mp mi < (pre @ xs) ! j)"
  using assms
proof (induction xs arbitrary: pre mp mi)
  case Nil
  then show ?case by simp
next
  case (Cons x xs)
  have nn: "\<not> isnan mp" "\<not> isnan x"
    using Cons.prems(1,2,3) by (auto simp: nth_append)
  have app: "pre @ x # xs = (pre @ [x]) @ xs" by simp
  show ?case
  proof (cases "mp \<le> x")
    case True
    have step: "argmin_loop (x # xs) (length pre) mp mi = argmin_loop xs (length (pre @ [x])) mp mi"
      using nn True by simp
    have "argmin_loop xs (length (pre @ [x])) mp mi < length ((pre @ [x]) @ xs) \<and>
         (\<forall>j<length ((pre @ [x]) @ xs). ((pre @ [x]) @ xs) ! argmin_loop xs (length (pre @ [x])) mp mi \<le> ((pre @ [x]) @ xs) ! j) \<and>
         (\<forall>j<argmin_loop xs (length (pre @ [x])) mp mi. 
             ((pre @ [x]) @ xs) ! argmin_loop xs (length (pre @ [x])) mp mi < ((pre @ [x]) @ xs) ! j)"
    proof (rule Cons.IH)
      show "\<forall>x\<in>set ((pre @ [x]) @ xs). \<not> isnan x" using Cons.prems(1) by simp
      show "mi < length (pre @ [x])" using Cons.prems(2) by simp
      show "mp = (pre @ [x]) ! mi" using Cons.prems(2,3) by (simp add: nth_append)
      show "\<forall>j<length (pre @ [x]). mp \<le> (pre @ [x]) ! j"
        using Cons.prems(4) True by (auto simp: nth_append less_Suc_eq)
      show "\<forall>j<mi. mp < (pre @ [x]) ! j"
        using Cons.prems(2,5) by (auto simp: nth_append)
    qed
    then show ?thesis unfolding step app .
  next
    case False
    then have lt: "x < mp" using nn by (simp add: fl_not_le_less)
    have step: "argmin_loop (x # xs) (length pre) mp mi = argmin_loop xs (length (pre @ [x])) x (length pre)"
      using nn False by simp
    have "argmin_loop xs (length (pre @ [x])) x (length pre) < length ((pre @ [x]) @ xs) \<and>
         (\<forall>j<length ((pre @ [x]) @ xs). ((pre @ [x]) @ xs) ! argmin_loop xs (length (pre @ [x])) x (length pre) \<le> ((pre @ [x]) @ xs) ! j) \<and>
         (\<forall>j<argmin_loop xs (length (pre @ [x])) x (length pre). 
             ((pre @ [x]) @ xs) ! argmin_loop xs (length (pre @ [x])) x (length pre) < ((pre @ [x]) @ xs) ! j)"
    proof (rule Cons.IH)
      show "\<forall>x\<in>set ((pre @ [x]) @ xs). \<not> isnan x" using Cons.prems(1) by simp
      show "length pre < length (pre @ [x])" by simp
      show "x = (pre @ [x]) ! length pre" by simp
      show "\<forall>j<length (pre @ [x]). x \<le> (pre @ [x]) ! j"
        using Cons.prems(4) lt nn by (auto simp: nth_append less_Suc_eq fl_le_refl intro: fl_less_le fl_less_le_trans)
      show "\<forall>j<length pre. x < (pre @ [x]) ! j"
        using Cons.prems(4) lt by (auto simp: nth_append intro: fl_less_le_trans)
    qed
    then show ?thesis unfolding step app .
  qed
qed

lemma argmin_in_range:
  assumes "xs \<noteq> []"
  shows "\<exists>a. argmin xs = Inr a \<and> a < length xs"
proof (cases xs)
  case Nil
  with assms show ?thesis by simp
next
  case (Cons x rest)
  have "argmin_loop rest 1 x 0 < 1 + length rest" by (rule argmin_loop_bound) simp
  then show ?thesis using Cons by (simp add: argmin_def)
qed

lemma argmin_first_min:
  assumes "argmin xs = Inr a" and "\<forall>x\<in>set xs. \<not> isnan x"
  shows "(\<forall>j<length xs. xs ! a \<le> xs ! j) \<and> (\<forall>j<a. xs ! a < xs ! j)"
proof (cases xs)
  case Nil
  with assms show ?thesis by (simp add: argmin_def)
next
  case (Cons x rest)
  have a: "a = argmin_loop rest (length [x]) x 0" using assms(1) Cons by (simp add: argmin_def)
  have "argmin_loop rest (length [x]) x 0 < length ([x] @ rest) \<and>
         (\<forall>j<length ([x] @ rest). ([x] @ rest) ! argmin_loop rest (length [x]) x 0 \<le> ([x] @ rest) ! j) \<and>
         (\<forall>j<argmin_loop rest (length [x]) x 0. 
             ([x] @ rest) ! argmin_loop rest (length [x]) x 0 < ([x] @ rest) ! j)"
  proof (rule argmin_loop_first_min)
    show "\<forall>y\<in>set ([x] @ rest). \<not> isnan y" using assms(2) Cons by simp
    show "\<forall>j<length [x]. x \<le> [x] ! j" using assms(2) Cons by (simp add: fl_le_refl)
  qed simp_all
  then show ?thesis using a Cons by simp
qed

lemma emap_Inr:
  assumes "\<forall>x\<in>set xs. \<exists>v. f x = Inr v"
  shows "\<exists>vs. emap f xs = Inr vs \<and> length vs = length xs \<and> (\<forall>i<length xs. f (xs ! i) = Inr (vs ! i))"
  using assms
proof (induction xs)
  case Nil
  then show ?case by simp
next
  case (Cons x xs)
  then obtain v where v: "f x = Inr v" by auto
  from Cons obtain vs where vs: "emap f xs = Inr vs" "length vs = length xs"
    "\<forall>i<length xs. f (xs ! i) = Inr (vs ! i)" by auto
  show ?case using v vs by (auto simp: nth_Cons split: nat.splits)
qed

section \<open>Label reassignment without constraints\<close>

lemma argmin_axis1_rows:
  assumes "wf_mat scores" and "0 < ncols scores"
  shows "\<exists>labels. argmin_axis1 scores = Inr labels \<and> length labels = length (rws scores) \<and>
           (\<forall>i<length (rws scores). \<exists>a. argmin (rws scores ! i) = Inr a \<and> a < ncols scores \<and> labels ! i = int a)"
proof -
  let ?f = "\<lambda>r. case argmin r of Inl e \<Rightarrow> Inl e | Inr j \<Rightarrow> Inr (int j)"
  have rows: "\<forall>r\<in>set (rws scores). \<exists>a. argmin r = Inr a \<and> a < ncols scores"
  proof
    fix r assume "r \<in> set (rws scores)"
    then have len: "length r = ncols scores" using assms(1) by (simp add: wf_mat_def list_all_iff)
    then have "r \<noteq> []" using assms(2) by auto
    then show "\<exists>a. argmin r = Inr a \<and> a < ncols scores" using argmin_in_range len by metis
  qed
  then have "\<forall>r\<in>set (rws scores). \<exists>v. ?f r = Inr v" by fastforce
  then obtain vs where vs: "emap ?f (rws scores) = Inr vs" "length vs = length (rws scores)"
    "\<forall>i<length (rws scores). ?f (rws scores ! i) = Inr (vs ! i)"
    using emap_Inr [of "rws scores" ?f] by blast
  have "\<forall>i<length (rws scores). \<exists>a. argmin (rws scores ! i) = Inr a \<and> a < ncols scores \<and> vs ! i = int a"
  proof (intro allI impI)
    fix i assume i: "i < length (rws scores)"
    then obtain a where a: "argmin (rws scores ! i) = Inr a" "a < ncols scores" using rows nth_mem by blast
    then show "\<exists>a. argmin (rws scores ! i) = Inr a \<and> a < ncols scores \<and> vs ! i = int a"
      using vs(3) i by auto
  qed
  then show ?thesis using vs(1,2) assms(2) by (simp add: argmin_axis1_def)
qed

text \<open>
  Claim C1. Without constraints, and for a score array of \<open>N\<close> rows and \<open>k > 0\<close> columns,
  \<open>reassign_labels\<close> returns \<open>N\<close> labels; every label lies in \<open>[0, k)\<close>; and where a row holds
  no NaN, its label is the index of a minimum of the row and every earlier entry of the row is
  strictly larger (the first index attaining the minimum).
\<close>

theorem reassign_labels_unconstrained:
  assumes "wf_mat scores" and "0 < ncols scores"
  shows "\<exists>labels. reassign_labels uninit scores None = Inr labels \<and>
           length labels = length (rws scores) \<and>
           (\<forall>i<length (rws scores).
              0 \<le> labels ! i \<and> labels ! i < int (ncols scores) \<and>
              ((\<forall>x\<in>set (rws scores ! i). \<not> isnan x) \<longrightarrow>
                 (\<forall>j<ncols scores. rws scores ! i ! nat (labels ! i) \<le> rws scores ! i ! j) \<and>
                 (\<forall>j<nat (labels ! i). rws scores ! i ! nat (labels ! i) < rws scores ! i ! j)))"
proof -
  obtain labels where l: "argmin_axis1 scores = Inr labels" "length labels = length (rws scores)"
    "\<forall>i<length (rws scores). \<exists>a. argmin (rws scores ! i) = Inr a \<and> a < ncols scores \<and> labels ! i = int a"
    using argmin_axis1_rows [OF assms] by blast
  have "\<forall>i<length (rws scores).
              0 \<le> labels ! i \<and> labels ! i < int (ncols scores) \<and>
              ((\<forall>x\<in>set (rws scores ! i). \<not> isnan x) \<longrightarrow>
                 (\<forall>j<ncols scores. rws scores ! i ! nat (labels ! i) \<le> rws scores ! i ! j) \<and>
                 (\<forall>j<nat (labels ! i). rws scores ! i ! nat (labels ! i) < rws scores ! i ! j))"
  proof (intro allI impI)
    fix i assume i: "i < length (rws scores)"
    then obtain a where a: "argmin (rws scores ! i) = Inr a" "a < ncols scores" "labels ! i = int a"
      using l(3) by blast
    have len: "length (rws scores ! i) = ncols scores"
      using assms(1) i by (simp add: wf_mat_def list_all_length)
    show "0 \<le> labels ! i \<and> labels ! i < int (ncols scores) \<and>
              ((\<forall>x\<in>set (rws scores ! i). \<not> isnan x) \<longrightarrow>
                 (\<forall>j<ncols scores. rws scores ! i ! nat (labels ! i) \<le> rws scores ! i ! j) \<and>
                 (\<forall>j<nat (labels ! i). rws scores ! i ! nat (labels ! i) < rws scores ! i ! j))"
      using a argmin_first_min [OF a(1)] len by simp
  qed
  then show ?thesis using l(1,2) by (simp add: reassign_labels_def)
qed

theorem reassign_labels_unconstrained_witness:
  "wf_mat \<lparr>ncols = 3, rws = [[Fin 4, Fin 1, Fin 1], [Fin 0, PInf, Fin 2]]\<rparr> \<and>
   (0::nat) < ncols \<lparr>ncols = 3, rws = [[Fin 4, Fin 1, Fin 1], [Fin 0, PInf, Fin 2]]\<rparr> \<and>
   reassign_labels (\<lambda>i. 0) \<lparr>ncols = 3, rws = [[Fin 4, Fin 1, Fin 1], [Fin 0, PInf, Fin 2]]\<rparr> None
     = Inr [1, 0]"
  using reassign_labels_unconstrained
    [of "\<lparr>ncols = 3, rws = [[Fin 4, Fin 1, Fin 1], [Fin 0, PInf, Fin 2]]\<rparr>" "\<lambda>i. 0"]
  by (simp add: wf_mat_def reassign_labels_def argmin_axis1_def argmin_def)

section \<open>The loop with a convergence test, against its trace\<close>

lemma iterate_Suc_front:
  "iterate body (Suc j) st = (case body st of Inl err \<Rightarrow> Inl err | Inr st' \<Rightarrow> iterate body j st')"
proof (induction j)
  case 0
  show ?case by (simp split: sum.splits)
next
  case (Suc j)
  have "iterate body (Suc (Suc j)) st =
          (case iterate body (Suc j) st of Inl err \<Rightarrow> Inl err | Inr st' \<Rightarrow> body st')"
    by simp
  also have "\<dots> = (case body st of Inl err \<Rightarrow> Inl err | Inr st' \<Rightarrow> iterate body (Suc j) st')"
    unfolding Suc by (simp split: sum.splits)
  finally show ?case .
qed

lemma test_at_first:
  "body st0 = Inr st1 \<Longrightarrow> test_at body test st0 (Suc 0) = test st1 st0"
  by (simp add: test_at_def)

lemma test_at_shift:
  assumes "body st0 = Inr st1" and "0 < j"
  shows "test_at body test st0 (Suc j) = test_at body test st1 j"
proof -
  obtain i where j: "j = Suc i" using assms(2) by (cases j) auto
  have 1: "iterate body (Suc i) st0 = iterate body i st1"
    using assms(1) by (simp only: iterate_Suc_front sum.case)
  have 2: "iterate body (Suc (Suc i)) st0 = iterate body (Suc i) st1"
    using assms(1) by (simp only: iterate_Suc_front [of body "Suc i"] sum.case)
  show ?thesis unfolding j test_at_def using 1 2 by simp
qed

text \<open>
  When the loop returns after \<open>n\<close> iterations: its state is the trace's \<open>n\<close>-th, the test failed
  after every earlier iteration, and \<open>n < max_iter\<close> only if the test held after the \<open>n\<close>-th.
\<close>

lemma loop_break_returns:
  assumes "loop_break body test m st0 = Inr (st, n)"
  shows "n \<le> m \<and> iterate body n st0 = Inr st \<and>
         (\<forall>j. 0 < j \<and> j < n \<longrightarrow> \<not> test_at body test st0 j) \<and>
         (n < m \<longrightarrow> 0 < n \<and> test_at body test st0 n)"
  using assms
proof (induction m arbitrary: st0 st n)
  case 0
  then show ?case by simp
next
  case (Suc m)
  from Suc.prems obtain st1 where b: "body st0 = Inr st1"
    by (auto split: sum.splits)
  show ?case
  proof (cases "test st1 st0")
    case True
    then have "st = st1" "n = 1" using Suc.prems b by simp_all
    then show ?thesis using b True by (simp add: test_at_first)
  next
    case False
    then obtain n' where l: "loop_break body test m st1 = Inr (st, n')" and n: "n = Suc n'"
      using Suc.prems b by (auto split: sum.splits)
    have ih: "n' \<le> m" "iterate body n' st1 = Inr st"
      "\<forall>j. 0 < j \<and> j < n' \<longrightarrow> \<not> test_at body test st1 j"
      "n' < m \<longrightarrow> 0 < n' \<and> test_at body test st1 n'"
      using Suc.IH [OF l] by simp_all
    have it: "iterate body n st0 = Inr st"
      unfolding n using b ih(2) by (simp only: iterate_Suc_front sum.case)
    have before: "\<not> test_at body test st0 j" if "0 < j" "j < n" for j
    proof (cases j)
      case 0
      with that show ?thesis by simp
    next
      case (Suc i)
      show ?thesis
      proof (cases "i = 0")
        case True
        then show ?thesis using Suc b False by (simp add: test_at_first)
      next
        case nz: False
        then have "test_at body test st0 (Suc i) = test_at body test st1 i"
          using test_at_shift [of body st0 st1 i test] b by simp
        moreover have "\<not> test_at body test st1 i" using ih(3) nz that Suc n by simp
        ultimately show ?thesis using Suc by simp
      qed
    qed
    have last: "0 < n \<and> test_at body test st0 n" if "n < Suc m"
    proof -
      have "n' < m" using that n by simp
      then have "0 < n'" "test_at body test st1 n'" using ih(4) by simp_all
      then show ?thesis unfolding n using test_at_shift [of body st0 st1 n' test] b by simp
    qed
    show ?thesis using ih(1) n it before last by simp
  qed
qed

text \<open>
  When the loop raises: the body raised in an iteration the loop reached, and the test had
  failed after every iteration before it.
\<close>

lemma loop_break_raises:
  assumes "loop_break body test m st0 = Inl err"
  shows "\<exists>j<m. iterate body (Suc j) st0 = Inl err \<and>
           (\<forall>i. 0 < i \<and> i \<le> j \<longrightarrow> \<not> test_at body test st0 i)"
  using assms
proof (induction m arbitrary: st0)
  case 0
  then show ?case by simp
next
  case (Suc m)
  show ?case
  proof (cases "body st0")
    case (Inl e)
    then have "e = err" using Suc.prems by simp
    then have "iterate body (Suc 0) st0 = Inl err" using Inl by simp
    then show ?thesis by (intro exI [of _ 0]) simp
  next
    case (Inr st1)
    have nt: "\<not> test st1 st0" using Suc.prems Inr by (auto split: if_splits)
    then have "loop_break body test m st1 = Inl err"
      using Suc.prems Inr by (auto split: sum.splits)
    then obtain j where j: "j < m" "iterate body (Suc j) st1 = Inl err"
      "\<forall>i. 0 < i \<and> i \<le> j \<longrightarrow> \<not> test_at body test st1 i"
      using Suc.IH by blast
    have 1: "iterate body (Suc (Suc j)) st0 = Inl err"
      using Inr j(2) by (simp only: iterate_Suc_front [of body "Suc j"] sum.case)
    have 2: "\<not> test_at body test st0 i" if "0 < i" "i \<le> Suc j" for i
    proof (cases i)
      case 0
      with that show ?thesis by simp
    next
      case (Suc i')
      show ?thesis
      proof (cases "i' = 0")
        case True
        then show ?thesis using Suc Inr nt by (simp add: test_at_first)
      next
        case False
        then have "test_at body test st0 (Suc i') = test_at body test st1 i'"
          using test_at_shift [of body st0 st1 i' test] Inr by simp
        moreover have "\<not> test_at body test st1 i'" using j(3) False that Suc by simp
        ultimately show ?thesis using Suc by simp
      qed
    qed
    show ?thesis using j(1) 1 2 by (intro exI [of _ "Suc j"]) simp
  qed
qed

text \<open>Conversely, a trace without exceptions makes the loop return.\<close>

lemma loop_break_total:
  assumes "\<forall>j\<le>m. \<exists>st. iterate body j st0 = Inr st"
  shows "\<exists>st n. loop_break body test m st0 = Inr (st, n)"
proof (cases "loop_break body test m st0")
  case (Inl err)
  then obtain j where "j < m" "iterate body (Suc j) st0 = Inl err"
    using loop_break_raises [of body test m st0 err] by blast
  moreover have "Suc j \<le> m" using \<open>j < m\<close> by simp
  then have "\<exists>st. iterate body (Suc j) st0 = Inr st" using assms by blast
  ultimately show ?thesis by (simp del: iterate.simps)
next
  case (Inr r)
  then show ?thesis by (cases r) simp
qed

section \<open>Label reassignment under constraints\<close>

lemma group_label_in_range:
  assumes "0 < ncols scores"
  shows "\<exists>a. group_label scores constr c = Inr a \<and> a < ncols scores"
proof -
  have "mean_axis0 (ncols scores) (select constr c (rws scores)) \<noteq> []"
    using assms by (simp add: mean_axis0_def)
  then show ?thesis
    using argmin_in_range [of "mean_axis0 (ncols scores) (select constr c (rws scores))"]
    by (simp add: group_label_def mean_axis0_def)
qed

lemma mask_assign_nth:
  assumes "length labels = length constr" and "i < length constr"
  shows "mask_assign constr c v labels ! i = (if constr ! i = c then v else labels ! i)"
  using assms by (simp add: mask_assign_def)

lemma length_mask_assign:
  "length labels = length constr \<Longrightarrow> length (mask_assign constr c v labels) = length constr"
  by (simp add: mask_assign_def)

lemma constr_loop_result:
  assumes "0 < ncols scores" and "length constr = length (rws scores)"
    and "length labels = length constr"
  shows "\<exists>labels'. constr_loop scores constr ids labels = Inr labels' \<and>
           length labels' = length constr \<and>
           (\<forall>i<length constr. 
              if constr ! i \<in> set ids
              then group_label scores constr (constr ! i) = Inr (nat (labels' ! i)) \<and> 0 \<le> labels' ! i
              else labels' ! i = labels ! i)"
  using assms(3)
proof (induction ids arbitrary: labels)
  case Nil
  then show ?case by simp
next
  case (Cons c ids)
  obtain a where a: "group_label scores constr c = Inr a"
    using group_label_in_range [OF assms(1)] by blast
  let ?l1 = "mask_assign constr c (int a) labels"
  have step: "constr_loop scores constr (c # ids) labels = constr_loop scores constr ids ?l1"
    using a assms(2) by (simp add: group_label_def)
  have len1: "length ?l1 = length constr" using Cons.prems by (rule length_mask_assign)
  obtain labels' where l': "constr_loop scores constr ids ?l1 = Inr labels'"
    "length labels' = length constr"
    "\<forall>i<length constr. 
              if constr ! i \<in> set ids
              then group_label scores constr (constr ! i) = Inr (nat (labels' ! i)) \<and> 0 \<le> labels' ! i
              else labels' ! i = ?l1 ! i"
    using Cons.IH [OF len1] by blast
  have "\<forall>i<length constr. 
              if constr ! i \<in> set (c # ids)
              then group_label scores constr (constr ! i) = Inr (nat (labels' ! i)) \<and> 0 \<le> labels' ! i
              else labels' ! i = labels ! i"
  proof (intro allI impI)
    fix i assume i: "i < length constr"
    have m: "?l1 ! i = (if constr ! i = c then int a else labels ! i)"
      using Cons.prems i by (rule mask_assign_nth)
    show "if constr ! i \<in> set (c # ids)
              then group_label scores constr (constr ! i) = Inr (nat (labels' ! i)) \<and> 0 \<le> labels' ! i
              else labels' ! i = labels ! i"
      using l'(3) i m a by (auto split: if_splits)
  qed
  then show ?case using step l'(1,2) by simp
qed

lemma fold_max_ge: "(m::int) \<le> fold max xs m"
  by (induction xs arbitrary: m) (auto intro: order_trans [OF max.cobounded2])

lemma fold_max_mem: "x \<in> set xs \<Longrightarrow> (x::int) \<le> fold max xs m"
proof (induction xs arbitrary: m)
  case Nil
  then show ?case by simp
next
  case (Cons y ys)
  show ?case
  proof (cases "x = y")
    case True
    have "y \<le> max y m" by simp
    also have "\<dots> \<le> fold max ys (max y m)" by (rule fold_max_ge)
    finally show ?thesis using True by simp
  next
    case False
    then show ?thesis using Cons by simp
  qed
qed

lemma array_max_ge: "c \<in> set cs \<Longrightarrow> c \<le> array_max cs"
  by (cases cs) (auto simp: array_max_def fold_max_ge fold_max_mem)

lemma fold_max_in: "fold max xs (m::int) \<in> set (m # xs)"
proof (induction xs arbitrary: m)
  case Nil
  show ?case by simp
next
  case (Cons y ys)
  have ih: "fold max ys (max y m) \<in> set (max y m # ys)" by (rule Cons.IH)
  have "max y m = y \<or> max y m = m" by (simp add: max_def)
  then have "set (max y m # ys) \<subseteq> set (m # y # ys)" by auto
  then show ?case using ih by auto
qed

lemma array_max_in: "cs \<noteq> [] \<Longrightarrow> array_max cs \<in> set cs"
  using fold_max_in [of "tl cs" "hd cs"] by (cases cs) (simp_all add: array_max_def)

lemma int64_plain: "- (2 ^ 63) \<le> x \<Longrightarrow> x < 2 ^ 63 \<Longrightarrow> int64 x = x"
  by (simp add: int64_def)

text \<open>With ids in \<open>[0, 2\<^sup>6\<^sup>3 - 1)\<close> the stop of the range is \<open>constr.max() + 1\<close> itself.\<close>

lemma range_stop_plain:
  assumes "cs \<noteq> []" and "\<forall>c\<in>set cs. 0 \<le> c \<and> c < 9223372036854775807"
  shows "int64 (array_max cs + 1) = array_max cs + 1"
proof -
  have "0 \<le> array_max cs \<and> array_max cs < 9223372036854775807"
    using array_max_in [OF assms(1)] assms(2) by blast
  then show ?thesis by (intro int64_plain) simp_all
qed

lemma in_range_ids:
  assumes "c \<in> set cs" and "0 \<le> c"
  shows "c \<in> set (map int [0..<nat (array_max cs + 1)])"
proof -
  have "c \<le> array_max cs" using assms(1) by (rule array_max_ge)
  then have "nat c < nat (array_max cs + 1)" using assms(2) by simp
  then have "nat c \<in> set [0..<nat (array_max cs + 1)]" by simp
  then have "int (nat c) \<in> int ` set [0..<nat (array_max cs + 1)]" by (rule imageI)
  moreover have "int (nat c) = c" using assms(2) by simp
  ultimately show ?thesis by (simp only: set_map)
qed

text \<open>
  Claim C4, as amended. For a score array of \<open>k > 0\<close> columns and a non-empty sequence of
  group ids in \<open>[0, 2\<^sup>6\<^sup>3 - 1)\<close>, one per row, \<open>reassign_labels\<close> returns one label per point; the
  label of a point lies in \<open>[0, k)\<close> and is the argmin of the mean score vector over the rows
  of the point's group, so all points of a group share one label. The result does not depend
  on what the fresh label buffer held.
\<close>

theorem reassign_labels_constrained:
  assumes "0 < ncols scores" and "length constr = length (rws scores)" and "constr \<noteq> []"
    and "\<forall>c\<in>set constr. 0 \<le> c \<and> c < 9223372036854775807"
  shows "\<exists>labels. reassign_labels uninit scores (Some constr) = Inr labels \<and>
           length labels = length constr \<and>
           (\<forall>i<length constr.
              0 \<le> labels ! i \<and> labels ! i < int (ncols scores) \<and>
              argmin (mean_axis0 (ncols scores) (select constr (constr ! i) (rws scores)))
                = Inr (nat (labels ! i)) \<and>
              (\<forall>j<length constr. constr ! j = constr ! i \<longrightarrow> labels ! j = labels ! i))"
proof -
  let ?ids = "map int [0..<nat (array_max constr + 1)]"
  let ?l0 = "map uninit [0..<length (rws scores)]"
  have len0: "length ?l0 = length constr" using assms(2) by simp
  obtain labels where l: "constr_loop scores constr ?ids ?l0 = Inr labels"
    "length labels = length constr"
    "\<forall>i<length constr. 
              if constr ! i \<in> set ?ids
              then group_label scores constr (constr ! i) = Inr (nat (labels ! i)) \<and> 0 \<le> labels ! i
              else labels ! i = ?l0 ! i"
    using constr_loop_result [OF assms(1,2) len0, of ?ids] by blast
  have pt: "group_label scores constr (constr ! i) = Inr (nat (labels ! i)) \<and> 0 \<le> labels ! i"
    if "i < length constr" for i
  proof -
    have "constr ! i \<in> set constr" using that by simp
    moreover from this have "0 \<le> constr ! i" using assms(4) by blast
    ultimately have mem: "constr ! i \<in> set ?ids" by (rule in_range_ids)
    from l(3) that have "if constr ! i \<in> set ?ids
              then group_label scores constr (constr ! i) = Inr (nat (labels ! i)) \<and> 0 \<le> labels ! i
              else labels ! i = ?l0 ! i" by blast
    then show ?thesis using mem by (simp only: if_True)
  qed
  have pts: "\<forall>i<length constr.
              0 \<le> labels ! i \<and> labels ! i < int (ncols scores) \<and>
              argmin (mean_axis0 (ncols scores) (select constr (constr ! i) (rws scores)))
                = Inr (nat (labels ! i)) \<and>
              (\<forall>j<length constr. constr ! j = constr ! i \<longrightarrow> labels ! j = labels ! i)"
  proof (intro allI impI conjI)
    fix i assume i: "i < length constr"
    show "0 \<le> labels ! i" using pt [OF i] by simp
    obtain a where a: "group_label scores constr (constr ! i) = Inr a" "a < ncols scores"
      using group_label_in_range [OF assms(1)] by blast
    then show "labels ! i < int (ncols scores)" using pt [OF i] by auto
    show "argmin (mean_axis0 (ncols scores) (select constr (constr ! i) (rws scores)))
                = Inr (nat (labels ! i))"
      using pt [OF i] by (simp add: group_label_def)
    fix j assume j: "j < length constr" and eq: "constr ! j = constr ! i"
    have "Inr (nat (labels ! j)) = (Inr (nat (labels ! i)) :: py_error + nat)"
      using pt [OF i] pt [OF j] eq by simp
    then have "nat (labels ! j) = nat (labels ! i)" by simp
    moreover have "0 \<le> labels ! i" "0 \<le> labels ! j" using pt [OF i] pt [OF j] by simp_all
    ultimately show "labels ! j = labels ! i" by linarith
  qed
  have "reassign_labels uninit scores (Some constr) = constr_loop scores constr ?ids ?l0"
    using assms(3) by (simp add: reassign_labels_def range_stop_plain [OF assms(3,4)])
  then have "reassign_labels uninit scores (Some constr) = Inr labels"
    using l(1) by simp
  then show ?thesis using l(2) pts by blast
qed

theorem reassign_labels_constrained_witness:
  "(0::nat) < ncols \<lparr>ncols = 2, rws = [[Fin 1, Fin 2], [Fin 5, Fin 2], [Fin 0, Fin 9]]\<rparr> \<and>
   length [2, 0, 2 :: int] = length (rws \<lparr>ncols = 2, rws = [[Fin 1, Fin 2], [Fin 5, Fin 2], [Fin 0, Fin 9]]\<rparr>) \<and>
   reassign_labels (\<lambda>i. 7 + int i) \<lparr>ncols = 2, rws = [[Fin 1, Fin 2], [Fin 5, Fin 2], [Fin 0, Fin 9]]\<rparr>
      (Some [2, 0, 2]) = Inr [0, 1, 0]"
  using reassign_labels_constrained
    [of "\<lparr>ncols = 2, rws = [[Fin 1, Fin 2], [Fin 5, Fin 2], [Fin 0, Fin 9]]\<rparr>" "[2, 0, 2]" "\<lambda>i. 7 + int i"]
  by (simp add: reassign_labels_def array_max_def int64_def argmin_def mean_axis0_def select_def
      mask_assign_def fl_mean_def fl_sum_def eval_nat_numeral)

text \<open>
  Claim C4 as stated fails for a negative group id: the loop runs over
  \<open>range(constr.max() + 1)\<close>, so a group with a negative id is never written and its points keep
  what the buffer of \<open>np.empty\<close> held. Here both points are in group \<open>-1\<close>, the argmin of the
  group's mean score vector is 0, and the labels returned are the buffer's 7 and 8.
\<close>

theorem reassign_labels_negative_group:
  "reassign_labels (\<lambda>i. 7 + int i) \<lparr>ncols = 2, rws = [[Fin 1, Fin 2], [Fin 1, Fin 2]]\<rparr>
      (Some [-1, -1]) = Inr [7, 8] \<and>
   argmin (mean_axis0 2 (select [-1, -1] (-1) [[Fin 1, Fin 2], [Fin 1, Fin 2]])) = Inr 0"
  by (simp add: reassign_labels_def array_max_def int64_def argmin_def mean_axis0_def select_def
      fl_mean_def fl_sum_def eval_nat_numeral)

text \<open>
  The largest 64-bit id is not reached either: \<open>constr.max() + 1\<close> wraps around to \<open>-2\<^sup>6\<^sup>3\<close>, the
  range is empty, and the points keep what the buffer held.
\<close>

lemma reassign_labels_largest_id:
  "reassign_labels (\<lambda>i. 7 + int i) \<lparr>ncols = 2, rws = [[Fin 1, Fin 2], [Fin 1, Fin 2]]\<rparr>
      (Some [9223372036854775807, 9223372036854775807]) = Inr [7, 8]"
  by (simp add: reassign_labels_def array_max_def int64_def eval_nat_numeral)

section \<open>The loop of \<open>clr\<close>\<close>

lemma isclose_int_refl: "isclose_int a a"
  by (simp add: isclose_int_def)

lemma close_within_range:
  fixes x y :: real
  assumes "\<bar>x - y\<bar> \<le> 1 / 10 ^ 8 + (1 / 10 ^ 5) * \<bar>y\<bar>" and "0 \<le> x" and "x \<le> 99998"
  shows "\<bar>x - y\<bar> < 1"
  using assms by (cases "0 \<le> y"; cases "y \<le> x") (simp_all add: abs_if)

lemma isclose_int_small:
  assumes "isclose_int a b" and "0 \<le> a" and "a \<le> 99998"
  shows "a = b"
proof -
  have "\<bar>real_of_int a - real_of_int b\<bar> < 1"
    using assms close_within_range [of "real_of_int a" "real_of_int b"]
    by (simp add: isclose_int_def)
  then have "real_of_int \<bar>a - b\<bar> < real_of_int 1" by simp
  then have "\<bar>a - b\<bar> < 1" by (simp only: of_int_less_iff)
  then show ?thesis by simp
qed

lemma allclose_labels_small:
  assumes "\<forall>l\<in>set new. 0 \<le> l \<and> l \<le> 99998"
  shows "allclose_labels new prev = (new = prev)"
proof
  assume "allclose_labels new prev"
  then have "list_all2 isclose_int new prev" by (simp add: allclose_labels_def)
  then have "list_all2 (=) new prev"
    using assms by (auto simp: list_all2_conv_all_nth intro: isclose_int_small)
  then show "new = prev" by (simp add: list.rel_eq)
next
  assume "new = prev"
  then show "allclose_labels new prev"
    by (simp add: allclose_labels_def list_all2_conv_all_nth isclose_int_refl)
qed

lemma emap_length: "emap f xs = Inr vs \<Longrightarrow> length vs = length xs"
  by (induction xs arbitrary: vs) (auto split: sum.splits)

lemma wf_rows_of_cols: "wf_mat \<lparr>ncols = length cols, rws = rows_of_cols n cols\<rparr>"
  by (simp add: wf_mat_def rows_of_cols_def list_all_iff)

text \<open>One iteration hands a well-formed array of \<open>k\<close> columns to \<open>reassign_labels\<close>.\<close>

lemma clr_iter_labels:
  assumes "clr_iter e X y k kmeans_X constr st = Inr st'"
  shows "\<exists>sc. wf_mat sc \<and> ncols sc = k \<and> length (rws sc) = length (rws X) \<and>
           reassign_labels (empty_int e) sc constr = Inr (c_labels st')"
proof -
  from assms obtain ms cols new where
    cols: "emap (score_column e X y kmeans_X (c_labels st) ms) [0..<k] = Inr cols" and
    new: "reassign_labels (empty_int e) \<lparr>ncols = k, rws = rows_of_cols (length (rws X)) cols\<rparr> constr
            = Inr new" and
    st': "st' = \<lparr>c_labels = new, c_models = ms,
                 c_scores = \<lparr>ncols = k, rws = rows_of_cols (length (rws X)) cols\<rparr>\<rparr>"
    by (auto simp: clr_iter_def Let_def split: sum.splits)
  have len: "length cols = k" using emap_length [OF cols] by simp
  have "wf_mat \<lparr>ncols = k, rws = rows_of_cols (length (rws X)) cols\<rparr>"
    using wf_rows_of_cols [of cols "length (rws X)"] len by simp
  moreover have "length (rws \<lparr>ncols = k, rws = rows_of_cols (length (rws X)) cols\<rparr>) = length (rws X)"
    by (simp add: rows_of_cols_def)
  ultimately show ?thesis using new st' by (intro exI [of _ "\<lparr>ncols = k, rws = rows_of_cols (length (rws X)) cols\<rparr>"]) simp
qed

text \<open>
  Without constraints, or with group ids that all lie in \<open>[0, 2\<^sup>6\<^sup>3 - 1)\<close>, the labels
  \<open>reassign_labels\<close> returns lie in \<open>[0, k)\<close>.
\<close>

lemma reassign_labels_range:
  assumes "reassign_labels uninit sc constr = Inr ls" and "wf_mat sc" and "ids_reached constr"
  shows "\<forall>l\<in>set ls. 0 \<le> l \<and> l < int (ncols sc)"
proof (cases constr)
  case None
  then have a: "argmin_axis1 sc = Inr ls" using assms(1) by (simp add: reassign_labels_def)
  then have k: "0 < ncols sc" by (auto simp: argmin_axis1_def split: if_splits)
  obtain labels where l: "argmin_axis1 sc = Inr labels" "length labels = length (rws sc)"
    "\<forall>i<length (rws sc). \<exists>a. argmin (rws sc ! i) = Inr a \<and> a < ncols sc \<and> labels ! i = int a"
    using argmin_axis1_rows [OF assms(2) k] by blast
  then have eq: "labels = ls" using a by simp
  have "0 \<le> ls ! i \<and> ls ! i < int (ncols sc)" if i: "i < length (rws sc)" for i
  proof -
    obtain a where "a < ncols sc" "labels ! i = int a" using l(3) i by blast
    then show ?thesis using eq by simp
  qed
  then show ?thesis using l(2) eq by (auto simp: in_set_conv_nth)
next
  case (Some cs)
  have ok: "\<forall>c\<in>set cs. 0 \<le> c \<and> c < 9223372036854775807"
    using assms(3) Some by (simp add: ids_reached_def list_all_iff)
  then have nn: "\<forall>c\<in>set cs. 0 \<le> c" by blast
  have ne: "cs \<noteq> []" using assms(1) Some by (auto simp: reassign_labels_def split: if_splits)
  let ?ids = "map int [0..<nat (array_max cs + 1)]"
  let ?l0 = "map uninit [0..<length (rws sc)]"
  have run: "constr_loop sc cs ?ids ?l0 = Inr ls"
    using assms(1) Some ne by (simp add: reassign_labels_def range_stop_plain [OF ne ok])
  have "hd cs \<in> set cs" using ne by simp
  then have "0 \<le> array_max cs" using nn array_max_ge order_trans by blast
  then have "0 < nat (array_max cs + 1)" by simp
  then have "[0..<nat (array_max cs + 1)] = 0 # [Suc 0..<nat (array_max cs + 1)]"
    by (rule upt_conv_Cons)
  then have ids: "?ids = 0 # map int [Suc 0..<nat (array_max cs + 1)]" by simp
  have len: "length cs = length (rws sc)"
    using run unfolding ids by (auto split: if_splits)
  have k: "0 < ncols sc"
  proof (rule ccontr)
    assume "\<not> 0 < ncols sc"
    then have "argmin (mean_axis0 (ncols sc) (select cs 0 (rws sc))) = Inl ValueError"
      by (simp add: mean_axis0_def argmin_def)
    then show False using run len unfolding ids by simp
  qed
  have len0: "length ?l0 = length cs" using len by simp
  obtain labels' where l': "constr_loop sc cs ?ids ?l0 = Inr labels'"
    "length labels' = length cs"
    "\<forall>i<length cs.
        if cs ! i \<in> set ?ids
        then group_label sc cs (cs ! i) = Inr (nat (labels' ! i)) \<and> 0 \<le> labels' ! i
        else labels' ! i = ?l0 ! i"
    using constr_loop_result [OF k len len0, of ?ids] by blast
  have eq: "labels' = ls" using l'(1) run by simp
  have "0 \<le> ls ! i \<and> ls ! i < int (ncols sc)" if "i < length cs" for i
  proof -
    have "cs ! i \<in> set cs" using that by simp
    moreover from this have "0 \<le> cs ! i" using nn by blast
    ultimately have mem: "cs ! i \<in> set ?ids" by (rule in_range_ids)
    from l'(3) that have "if cs ! i \<in> set ?ids
        then group_label sc cs (cs ! i) = Inr (nat (labels' ! i)) \<and> 0 \<le> labels' ! i
        else labels' ! i = ?l0 ! i" by blast
    then have g: "group_label sc cs (cs ! i) = Inr (nat (ls ! i))" "0 \<le> ls ! i"
      using mem eq by (simp_all only: if_True)
    obtain a where "group_label sc cs (cs ! i) = Inr a" "a < ncols sc"
      using group_label_in_range [OF k] by blast
    then show ?thesis using g by auto
  qed
  then show ?thesis using l'(2) eq by (auto simp: in_set_conv_nth)
qed

lemma clr_test_exact:
  assumes "k \<le> 99999" and "ids_reached constr" and "0 < j"
  shows "test_at (clr_iter e X y k kmeans_X constr) clr_test st0 j =
         test_at (clr_iter e X y k kmeans_X constr) same_labels st0 j"
proof -
  obtain i where j: "j = Suc i" using assms(3) by (cases j) auto
  show ?thesis
  proof (cases "iterate (clr_iter e X y k kmeans_X constr) i st0")
    case (Inl err)
    then show ?thesis by (simp add: test_at_def j)
  next
    case (Inr a)
    show ?thesis
    proof (cases "clr_iter e X y k kmeans_X constr a")
      case (Inl err)
      then show ?thesis using Inr by (simp add: test_at_def j)
    next
      case b: (Inr b)
      obtain sc where sc: "wf_mat sc" "ncols sc = k"
        "reassign_labels (empty_int e) sc constr = Inr (c_labels b)"
        using clr_iter_labels [OF b] by blast
      have "\<forall>l\<in>set (c_labels b). 0 \<le> l \<and> l < int k"
        using reassign_labels_range [OF sc(3) sc(1) assms(2)] sc(2) by simp
      then have "\<forall>l\<in>set (c_labels b). 0 \<le> l \<and> l \<le> 99998" using assms(1) by auto
      then have "clr_test b a = same_labels b a"
        by (simp add: clr_test_def same_labels_def allclose_labels_small)
      then show ?thesis using Inr b by (simp add: test_at_def j)
    qed
  qed
qed

text \<open>
  Claim C2, as amended. The loop of \<open>clr\<close> returns after \<open>n \<le> max_iter\<close> iterations of its body,
  in the state those \<open>n\<close> iterations produce; it returns before \<open>max_iter\<close> only when the
  labels of iteration \<open>n\<close> are all-close to the labels before it under numpy's default
  tolerances (\<open>|new - prev| \<le> 1e-8 + 1e-5 * |prev|\<close> at every point), and no earlier iteration
  passed that test; the one other way the loop ends is an exception raised by an iteration
  it reached. When \<open>k \<le> 99999\<close> and the group ids, if any, lie in \<open>[0, 2\<^sup>6\<^sup>3 - 1)\<close>, the test
  holds exactly when the two label arrays are identical.
\<close>

theorem clr_loop_stops:
  "(case clr_loop e X y k kmeans_X constr max_iter st0 of
      Inr (st, n) \<Rightarrow>
        n \<le> max_iter \<and> iterate (clr_iter e X y k kmeans_X constr) n st0 = Inr st \<and>
        (\<forall>j. 0 < j \<and> j < n \<longrightarrow> \<not> test_at (clr_iter e X y k kmeans_X constr) clr_test st0 j) \<and>
        (n < max_iter \<longrightarrow> 0 < n \<and> test_at (clr_iter e X y k kmeans_X constr) clr_test st0 n)
    | Inl err \<Rightarrow>
        \<exists>j<max_iter. iterate (clr_iter e X y k kmeans_X constr) (Suc j) st0 = Inl err \<and>
          (\<forall>i. 0 < i \<and> i \<le> j \<longrightarrow> \<not> test_at (clr_iter e X y k kmeans_X constr) clr_test st0 i)) \<and>
   (k \<le> 99999 \<and> ids_reached constr \<longrightarrow>
      (\<forall>j>0. test_at (clr_iter e X y k kmeans_X constr) clr_test st0 j =
              test_at (clr_iter e X y k kmeans_X constr) same_labels st0 j))"
proof (intro conjI)
  show "case clr_loop e X y k kmeans_X constr max_iter st0 of
      Inr (st, n) \<Rightarrow>
        n \<le> max_iter \<and> iterate (clr_iter e X y k kmeans_X constr) n st0 = Inr st \<and>
        (\<forall>j. 0 < j \<and> j < n \<longrightarrow> \<not> test_at (clr_iter e X y k kmeans_X constr) clr_test st0 j) \<and>
        (n < max_iter \<longrightarrow> 0 < n \<and> test_at (clr_iter e X y k kmeans_X constr) clr_test st0 n)
    | Inl err \<Rightarrow>
        \<exists>j<max_iter. iterate (clr_iter e X y k kmeans_X constr) (Suc j) st0 = Inl err \<and>
          (\<forall>i. 0 < i \<and> i \<le> j \<longrightarrow> \<not> test_at (clr_iter e X y k kmeans_X constr) clr_test st0 i)"
  proof (cases "clr_loop e X y k kmeans_X constr max_iter st0")
    case (Inl err)
    then have "loop_break (clr_iter e X y k kmeans_X constr) clr_test max_iter st0 = Inl err"
      by (simp add: clr_loop_def)
    from loop_break_raises [OF this] show ?thesis using Inl by (simp del: iterate.simps)
  next
    case (Inr r)
    obtain st n where r: "r = (st, n)" by (cases r)
    have "loop_break (clr_iter e X y k kmeans_X constr) clr_test max_iter st0 = Inr (st, n)"
      using Inr r by (simp add: clr_loop_def)
    from loop_break_returns [OF this] show ?thesis using Inr r by simp
  qed
  show "k \<le> 99999 \<and> ids_reached constr \<longrightarrow>
      (\<forall>j>0. test_at (clr_iter e X y k kmeans_X constr) clr_test st0 j =
              test_at (clr_iter e X y k kmeans_X constr) same_labels st0 j)"
    using clr_test_exact by blast
qed

lemma clr_example_run:
  "clr_loop mean_env \<lparr>ncols = 2, rws = [[Fin 0, Fin 1], [Fin 0, Fin 1], [Fin 2, Fin 3], [Fin 2, Fin 3]]\<rparr>
      [Fin 1, Fin 1, Fin 5, Fin 5] 2 (Fin 0) None 5
      \<lparr>c_labels = [0, 0, 1, 0], c_models = [None, None], c_scores = \<lparr>ncols = 2, rws = []\<rparr>\<rparr> =
    Inr (\<lparr>c_labels = [0, 0, 1, 1], c_models = [Some (Fin 1), Some (Fin 5)],
          c_scores = \<lparr>ncols = 2, rws = [[Fin 0, Fin 16], [Fin 0, Fin 16], [Fin 16, Fin 0], [Fin 16, Fin 0]]\<rparr>\<rparr>,
         2)"
  by (simp add: clr_loop_def clr_iter_def clr_test_def allclose_labels_def isclose_int_def
      count_label_def select_rows_def select_def score_column_def predict_all_def mean_env_def
      rows_of_cols_def reassign_labels_def argmin_axis1_def argmin_def fl_mean_def fl_sum_def
      fl_sq_def minus_fl_def eval_nat_numeral)

theorem clr_loop_stops_witness:
  "clr_loop mean_env \<lparr>ncols = 2, rws = [[Fin 0, Fin 1], [Fin 0, Fin 1], [Fin 2, Fin 3], [Fin 2, Fin 3]]\<rparr>
      [Fin 1, Fin 1, Fin 5, Fin 5] 2 (Fin 0) None 5
      \<lparr>c_labels = [0, 0, 1, 0], c_models = [None, None], c_scores = \<lparr>ncols = 2, rws = []\<rparr>\<rparr> =
    Inr (\<lparr>c_labels = [0, 0, 1, 1], c_models = [Some (Fin 1), Some (Fin 5)],
          c_scores = \<lparr>ncols = 2, rws = [[Fin 0, Fin 16], [Fin 0, Fin 16], [Fin 16, Fin 0], [Fin 16, Fin 0]]\<rparr>\<rparr>,
         2) \<and>
   (2::nat) < 5 \<and> (2::nat) \<le> 99999 \<and> ids_reached None \<and>
   test_at (clr_iter mean_env \<lparr>ncols = 2, rws = [[Fin 0, Fin 1], [Fin 0, Fin 1], [Fin 2, Fin 3], [Fin 2, Fin 3]]\<rparr>
       [Fin 1, Fin 1, Fin 5, Fin 5] 2 (Fin 0) None) clr_test
     \<lparr>c_labels = [0, 0, 1, 0], c_models = [None, None], c_scores = \<lparr>ncols = 2, rws = []\<rparr>\<rparr> 2 \<and>
   test_at (clr_iter mean_env \<lparr>ncols = 2, rws = [[Fin 0, Fin 1], [Fin 0, Fin 1], [Fin 2, Fin 3], [Fin 2, Fin 3]]\<rparr>
       [Fin 1, Fin 1, Fin 5, Fin 5] 2 (Fin 0) None) same_labels
     \<lparr>c_labels = [0, 0, 1, 0], c_models = [None, None], c_scores = \<lparr>ncols = 2, rws = []\<rparr>\<rparr> 2"
proof -
  let ?X = "\<lparr>ncols = 2, rws = [[Fin 0, Fin 1], [Fin 0, Fin 1], [Fin 2, Fin 3], [Fin 2, Fin 3]]\<rparr>"
  let ?st0 = "\<lparr>c_labels = [0, 0, 1, 0], c_models = [None, None], c_scores = \<lparr>ncols = 2, rws = []\<rparr>\<rparr>"
  let ?B = "clr_iter mean_env ?X [Fin 1, Fin 1, Fin 5, Fin 5] 2 (Fin 0) None"
  note th = clr_loop_stops [where e = mean_env and X = ?X
        and y = "[Fin 1, Fin 1, Fin 5, Fin 5]" and k = 2 and kmeans_X = "Fin 0" and constr = None
        and max_iter = 5 and ?st0.0 = ?st0]
  have ids: "ids_reached None" by (simp add: ids_reached_def)
  from th have t: "test_at ?B clr_test ?st0 2"
    by (simp add: clr_example_run del: iterate.simps)
  from th ids have "test_at ?B clr_test ?st0 2 = test_at ?B same_labels ?st0 2"
    by simp
  then have "test_at ?B same_labels ?st0 2" using t by simp
  then show ?thesis using t ids by (simp add: clr_example_run)
qed

text \<open>
  Claim C2 as stated fails for labels of magnitude \<open>10\<^sup>5\<close> and above, where the relative
  tolerance of \<open>np.allclose\<close> exceeds 1. The run: two points with target 5, \<open>m + 2\<close> clusters,
  the mean regressor, and the initial labels \<open>m\<close> and \<open>m + 1\<close>.
\<close>

lemma fit_models_skip:
  "\<forall>c\<in>set cs. count_label ls c = 0 \<Longrightarrow> fit_models e X y ls cs ms = Inr ms"
  by (induction cs) simp_all

lemma fit_models_append:
  "fit_models e X y ls (cs @ ds) ms =
     (case fit_models e X y ls cs ms of Inl err \<Rightarrow> Inl err | Inr ms' \<Rightarrow> fit_models e X y ls ds ms')"
  by (induction cs arbitrary: ms) (simp_all split: sum.splits)

lemma emap_map: "\<forall>x\<in>set xs. f x = Inr (g x) \<Longrightarrow> emap f xs = Inr (map g xs)"
  by (induction xs) simp_all

lemma fl_less_not_ge: "(a::fl) < b \<Longrightarrow> \<not> b \<le> a"
  by (cases a; cases b) auto

lemma argmin_eqI:
  assumes "j < length xs" and "\<forall>x\<in>set xs. \<not> isnan x"
    and "\<forall>i<length xs. xs ! j \<le> xs ! i" and "\<forall>i<j. xs ! j < xs ! i"
  shows "argmin xs = Inr j"
proof -
  have "xs \<noteq> []" using assms(1) by auto
  then obtain a where a: "argmin xs = Inr a" "a < length xs"
    using argmin_in_range by blast
  have m: "\<forall>i<length xs. xs ! a \<le> xs ! i" "\<forall>i<a. xs ! a < xs ! i"
    using argmin_first_min [OF a(1) assms(2)] by simp_all
  have "\<not> a < j"
  proof
    assume "a < j"
    then have "xs ! j < xs ! a" using assms(4) by simp
    moreover have "xs ! a \<le> xs ! j" using m(1) assms(1) by simp
    ultimately show False using fl_less_not_ge by blast
  qed
  moreover have "\<not> j < a"
  proof
    assume "j < a"
    then have "xs ! a < xs ! j" using m(2) by simp
    moreover have "xs ! j \<le> xs ! a" using assms(3) a(2) by simp
    ultimately show False using fl_less_not_ge by blast
  qed
  ultimately show ?thesis using a(1) by simp
qed

lemma far_labels_fit:
  assumes "k = Suc (Suc m)"
  shows "fit_models mean_env X [Fin 5, Fin 5] [int m, int m + 1] [0..<k] (replicate k None) =
         Inr ((replicate k None)[m := Some (Fin 5), Suc m := Some (Fin 5)])"
proof -
  have split: "[0..<k] = [0..<m] @ [m, Suc m]" using assms by simp
  have skip: "\<forall>c\<in>set [0..<m]. count_label [int m, int m + 1] c = 0"
    by (auto simp: count_label_def)
  have 1: "count_label [int m, int m + 1] m = 1" "count_label [int m, int m + 1] (Suc m) = 1"
    by (simp_all add: count_label_def)
  have 3: "fl_mean [Fin 5] = Fin 5" by (simp add: fl_mean_def fl_sum_def)
  have 4: "fit mean_env mo Xs ys = Inr (Some (fl_mean ys))" for mo Xs ys
    by (simp add: mean_env_def)
  show ?thesis
    unfolding split fit_models_append fit_models_skip [OF skip]
    by (simp add: 1 3 4 select_def del: replicate.simps)
qed

lemma far_labels_column:
  assumes "k = Suc (Suc m)" and "c < k"
  shows "score_column mean_env \<lparr>ncols = 2, rws = [[Fin 0, Fin 1], [Fin 0, Fin 1]]\<rparr> [Fin 5, Fin 5] (Fin 0)
           [int m, int m + 1] ((replicate k None)[m := Some (Fin 5), Suc m := Some (Fin 5)]) c =
         Inr (if c < m then [Fin 25, Fin 25] else [Fin 0, Fin 0])"
proof -
  have nth: "(replicate k None)[m := Some (Fin 5), Suc m := Some (Fin 5)] ! c =
          (if c < m then None else Some (Fin 5))"
    using assms by (auto simp: nth_list_update less_Suc_eq simp del: replicate.simps)
  have p: "predict mean_env mo \<lparr>ncols = 2, rws = [[Fin 0, Fin 1], [Fin 0, Fin 1]]\<rparr> =
             Inr [case mo of None \<Rightarrow> Fin 0 | Some v \<Rightarrow> v, case mo of None \<Rightarrow> Fin 0 | Some v \<Rightarrow> v]" for mo
    by (simp add: mean_env_def eval_nat_numeral)
  show ?thesis
    by (simp add: score_column_def predict_all_def p nth fl_sq_def minus_fl_def Let_def
        del: replicate.simps)
qed

lemma far_labels_argmin:
  assumes "k = Suc (Suc m)"
  shows "argmin (map (\<lambda>c. if c < m then Fin 25 else Fin 0) [0..<k]) = Inr m"
  using assms by (intro argmin_eqI) (auto simp del: upt_Suc)

lemma far_labels_iter:
  assumes "k = Suc (Suc m)"
  shows "clr_iter mean_env \<lparr>ncols = 2, rws = [[Fin 0, Fin 1], [Fin 0, Fin 1]]\<rparr> [Fin 5, Fin 5] k
      (Fin 0) None
      \<lparr>c_labels = [int m, int m + 1], c_models = replicate k None, c_scores = sc0\<rparr> =
   Inr \<lparr>c_labels = [int m, int m],
        c_models = (replicate k None)[m := Some (Fin 5), Suc m := Some (Fin 5)],
        c_scores = \<lparr>ncols = k,
                    rws = [map (\<lambda>c. if c < m then Fin 25 else Fin 0) [0..<k],
                           map (\<lambda>c. if c < m then Fin 25 else Fin 0) [0..<k]]\<rparr>\<rparr>"
proof -
  let ?X = "\<lparr>ncols = 2, rws = [[Fin 0, Fin 1], [Fin 0, Fin 1]]\<rparr>"
  let ?ms = "(replicate k None)[m := Some (Fin 5), Suc m := Some (Fin 5)]"
  let ?f = "\<lambda>c. if c < m then [Fin 25, Fin 25] else [Fin 0, Fin 0]"
  let ?row = "map (\<lambda>c. if c < m then Fin 25 else Fin 0) [0..<k]"
  have cols: "emap (score_column mean_env ?X [Fin 5, Fin 5] (Fin 0) [int m, int m + 1] ?ms)
                [0..<k] = Inr (map ?f [0..<k])"
    by (rule emap_map) (simp add: far_labels_column [OF assms])
  have "map (\<lambda>c. ?f c ! 0) [0..<k] = ?row" "map (\<lambda>c. ?f c ! Suc 0) [0..<k] = ?row"
    by (simp_all cong: if_cong)
  then have rows: "rows_of_cols (length (rws ?X)) (map ?f [0..<k]) = [?row, ?row]"
    by (simp add: rows_of_cols_def comp_def eval_nat_numeral)
  have re: "reassign_labels (empty_int mean_env) \<lparr>ncols = k, rws = [?row, ?row]\<rparr> None =
              Inr [int m, int m]"
  proof -
    have "k \<noteq> 0" using assms by simp
    then show ?thesis
      by (simp add: reassign_labels_def argmin_axis1_def far_labels_argmin [OF assms])
  qed
  show ?thesis
    unfolding clr_iter_def
    by (simp only: clr_state.simps far_labels_fit [OF assms] sum.case cols rows Let_def re)
qed

theorem clr_loop_stops_on_changed_labels:
  "map_sum id (\<lambda>(st, n). (c_labels st, n))
     (clr_loop mean_env \<lparr>ncols = 2, rws = [[Fin 0, Fin 1], [Fin 0, Fin 1]]\<rparr> [Fin 5, Fin 5] 200002
        (Fin 0) None 5
        \<lparr>c_labels = [200000, 200001], c_models = replicate 200002 None,
          c_scores = \<lparr>ncols = 200002, rws = empty_mat mean_env 0 2 200002\<rparr>\<rparr>) =
   Inr ([200000, 200000], 1)"
proof -
  have k: "(200002::nat) = Suc (Suc 200000)" by simp
  have l: "[200000, 200001] = [int 200000, int 200000 + 1]" by simp
  have close: "clr_test \<lparr>c_labels = [int 200000, int 200000], c_models = ms, c_scores = sc\<rparr>
       \<lparr>c_labels = [int 200000, int 200000 + 1], c_models = ms', c_scores = sc'\<rparr>"
    for ms ms' :: "fl option list" and sc sc'
    by (simp add: clr_test_def allclose_labels_def isclose_int_def)
  have five: "(5::nat) = Suc 4" by simp
  show ?thesis
    unfolding l clr_loop_def five loop_break.simps far_labels_iter [OF k]
    using close by simp
qed

section \<open>Sums of finite values\<close>

lemma foldl_plus_Fin: "foldl (+) (Fin a) (map Fin rs) = Fin (a + sum_list rs)"
  by (induction rs arbitrary: a) (simp_all add: add.assoc)

lemma fl_sum_Fin: "fl_sum (map Fin rs) = Fin (sum_list rs)"
  by (simp add: fl_sum_def foldl_plus_Fin)

lemma foldl_plus_not_finite: "\<not> isfinite a \<Longrightarrow> \<not> isfinite (foldl (+) a xs)"
proof (induction xs arbitrary: a)
  case Nil
  then show ?case by simp
next
  case (Cons x xs)
  have "\<not> isfinite (a + x)" using Cons.prems by (cases a; cases x) simp_all
  then show ?case using Cons.IH by simp
qed

lemma foldl_plus_finite:
  "foldl (+) (Fin a) xs = Fin r \<Longrightarrow> \<exists>rs. xs = map Fin rs"
proof (induction xs arbitrary: a)
  case Nil
  then show ?case by simp
next
  case (Cons x xs)
  show ?case
  proof (cases x)
    case (Fin b)
    then obtain rs where "xs = map Fin rs" using Cons by auto
    then have "x # xs = map Fin (b # rs)" using Fin by simp
    then show ?thesis by (rule exI)
  next
    case PInf
    then have "\<not> isfinite (foldl (+) (Fin a + x) xs)" by (intro foldl_plus_not_finite) simp
    then show ?thesis using Cons.prems by simp
  next
    case NInf
    then have "\<not> isfinite (foldl (+) (Fin a + x) xs)" by (intro foldl_plus_not_finite) simp
    then show ?thesis using Cons.prems by simp
  next
    case NaN
    then have "\<not> isfinite (foldl (+) (Fin a + x) xs)" by (intro foldl_plus_not_finite) simp
    then show ?thesis using Cons.prems by simp
  qed
qed

lemma fl_sum_finite:
  assumes "fl_sum xs = Fin r"
  shows "\<exists>rs. xs = map Fin rs \<and> sum_list rs = r"
proof -
  obtain rs where rs: "xs = map Fin rs"
    using assms foldl_plus_finite [of 0 xs r] by (auto simp: fl_sum_def)
  then have "sum_list rs = r" using assms by (simp add: fl_sum_Fin)
  then show ?thesis using rs by blast
qed

lemma all_finite_map_Fin:
  assumes "list_all isfinite xs"
  shows "\<exists>rs. xs = map Fin rs"
  using assms
proof (induction xs)
  case Nil
  then show ?case by simp
next
  case (Cons x xs)
  then obtain rs where rs: "xs = map Fin rs" by auto
  obtain b where "x = Fin b" using Cons.prems by (cases x) simp_all
  then have "x # xs = map Fin (b # rs)" using rs by simp
  then show ?case by (rule exI)
qed

section \<open>Row normalization\<close>

lemma normalize_row_stochastic:
  assumes "normalizable row"
  shows "stochastic (map (\<lambda>x. x / fl_sum row) row)"
proof -
  have "list_all isfinite row" using assms by (simp add: normalizable_def list_all_iff)
  then obtain rs where rs: "row = map Fin rs" using all_finite_map_Fin by blast
  have nn: "\<forall>r\<in>set rs. 0 \<le> r" using assms rs by (auto simp: normalizable_def list_all_iff)
  have pos: "0 < sum_list rs" using assms rs by (simp add: normalizable_def fl_sum_Fin)
  have m: "map (\<lambda>x. x / fl_sum row) row = map Fin (map (\<lambda>r. r / sum_list rs) rs)"
    using pos by (simp add: rs fl_sum_Fin)
  have "sum_list (map (\<lambda>r. r * inverse (sum_list rs)) rs) = sum_list rs * inverse (sum_list rs)"
    using sum_list_mult_const [of "\<lambda>r. r" "inverse (sum_list rs)" rs] by simp
  then have "sum_list (map (\<lambda>r. r / sum_list rs) rs) = sum_list rs / sum_list rs"
    by (simp add: divide_inverse)
  then have s: "sum_list (map (\<lambda>r. r / sum_list rs) rs) = 1" using pos by simp
  have "\<forall>r\<in>set rs. 0 \<le> r / sum_list rs" using nn pos by simp
  then show ?thesis unfolding m stochastic_def
    by (simp add: fl_sum_Fin s list_all_iff del: map_map)
qed

lemma normalize_rows_stochastic:
  "list_all normalizable qs \<Longrightarrow> list_all stochastic (normalize_rows qs)"
  by (simp add: normalize_rows_def list_all_iff normalize_row_stochastic)
section \<open>One iteration of \<open>fuzzy_clr\<close>\<close>

lemma emap_nth:
  "emap f xs = Inr vs \<Longrightarrow> length vs = length xs \<and> (\<forall>i<length xs. f (xs ! i) = Inr (vs ! i))"
proof (induction xs arbitrary: vs)
  case Nil
  then show ?case by simp
next
  case (Cons x xs)
  from Cons.prems obtain v vs' where v: "f x = Inr v" "emap f xs = Inr vs'" "vs = v # vs'"
    by (auto split: sum.splits)
  have "length vs' = length xs \<and> (\<forall>i<length xs. f (xs ! i) = Inr (vs' ! i))"
    using Cons.IH [OF v(2)] .
  then show ?case using v(1,3) by (auto simp: nth_Cons split: nat.splits)
qed

lemma fuzzy_iter_q:
  assumes "fuzzy_iter e X y k kmeans_X st = Inr st'"
  shows "f_q st' = normalize_rows (mix (f_lmbda st') (f_probs st'))"
  using assms by (auto simp: fuzzy_iter_def Let_def split: sum.splits)

lemma m_step_cluster_lmbda:
  assumes "m_step_cluster e X y kmeans_X qs ms c = Inr r"
  shows "fst (snd (snd r)) = fl_sum (col c qs) / Fin (real (length (rws X)))"
  using assms by (auto simp: m_step_cluster_def Let_def split: sum.splits)

lemma fuzzy_iter_lmbda:
  assumes "fuzzy_iter e X y k kmeans_X st = Inr st'"
  shows "length (f_lmbda st') = k \<and>
         (\<forall>c<k. f_lmbda st' ! c = fl_sum (col c (f_q st)) / Fin (real (length (rws X))))"
proof -
  from assms obtain ms where
    ms: "emap (m_step_cluster e X y kmeans_X (f_q st) (f_models st)) [0..<k] = Inr ms" and
    lam: "f_lmbda st' = map (\<lambda>r. fst (snd (snd r))) ms"
    by (auto simp: fuzzy_iter_def Let_def split: sum.splits)
  have n: "length ms = k"
    "\<forall>i<k. m_step_cluster e X y kmeans_X (f_q st) (f_models st) ([0..<k] ! i) = Inr (ms ! i)"
    using emap_nth [OF ms] by simp_all
  have "f_lmbda st' ! c = fl_sum (col c (f_q st)) / Fin (real (length (rws X)))" if c: "c < k" for c
  proof -
    have "m_step_cluster e X y kmeans_X (f_q st) (f_models st) c = Inr (ms ! c)"
      using n(2) c by auto
    then show ?thesis using m_step_cluster_lmbda lam n(1) c by simp
  qed
  then show ?thesis using lam n(1) by simp
qed

section \<open>The loop of \<open>fuzzy_clr\<close> and what the call returns\<close>

lemma loop_break_last:
  assumes "loop_break body test m st0 = Inr (st, n)" and "0 < m"
  shows "0 < n \<and> n \<le> m \<and> (\<exists>prev. iterate body (n - 1) st0 = Inr prev \<and> body prev = Inr st) \<and>
         (n < m \<longrightarrow> test_at body test st0 n)"
proof -
  have r: "n \<le> m" "iterate body n st0 = Inr st" "n < m \<longrightarrow> 0 < n \<and> test_at body test st0 n"
    using loop_break_returns [OF assms(1)] by simp_all
  have pos: "0 < n" using r(1,3) assms(2) by (cases "n < m") auto
  then obtain i where i: "n = Suc i" by (cases n) auto
  have "\<exists>prev. iterate body i st0 = Inr prev \<and> body prev = Inr st"
    using r(2) unfolding i by (auto split: sum.splits)
  then show ?thesis using pos r(1,3) i by simp
qed

lemma test_at_Inr:
  assumes "iterate body (n - 1) st0 = Inr prev" and "iterate body n st0 = Inr st"
  shows "test_at body test st0 n = test st prev"
  using assms by (simp add: test_at_def)

text \<open>
  A call of \<open>fuzzy_clr\<close> that returns, with \<open>max_iter > 0\<close>: the loop has executed some
  \<open>n\<close> iterations, \<open>1 \<le> n \<le> max_iter\<close>; the last one took the state \<open>prev\<close> to the state \<open>st\<close>;
  and the call returns the hard labels of \<open>st\<close>, the models refitted on them, and \<open>lmbda\<close> and
  the negative log-likelihood as \<open>st\<close> holds them.
\<close>

lemma fuzzy_clr_last_iteration:
  assumes "fuzzy_clr e X y k kmeans_X max_iter lr s = Inr ((ls, ms, lam, obj), s')"
    and "0 < max_iter"
  shows "\<exists>n prev st. 0 < n \<and> n \<le> max_iter \<and>
           fuzzy_loop e X y k kmeans_X max_iter (fuzzy_start e X k lr s) = Inr (st, n) \<and>
           iterate (fuzzy_iter e X y k kmeans_X) (n - 1) (fuzzy_start e X k lr s) = Inr prev \<and>
           fuzzy_iter e X y k kmeans_X prev = Inr st \<and>
           (n < max_iter \<longrightarrow> fuzzy_test st prev) \<and>
           lam = f_lmbda st \<and> obj = neg_loglike (f_lmbda st) (f_probs st) \<and>
           argmax_axis1 k (f_q st) = Inr ls \<and>
           fit_models e X y ls [0..<k] (f_models st) = Inr ms"
proof -
  from assms(1) obtain st n where
    loop: "fuzzy_loop e X y k kmeans_X max_iter (fuzzy_start e X k lr s) = Inr (st, n)" and
    out: "lam = f_lmbda st" "obj = neg_loglike (f_lmbda st) (f_probs st)"
      "argmax_axis1 k (f_q st) = Inr ls" "fit_models e X y ls [0..<k] (f_models st) = Inr ms"
    by (auto simp: fuzzy_clr_def fuzzy_start_def Let_def split: prod.splits if_splits sum.splits)
  have lb: "loop_break (fuzzy_iter e X y k kmeans_X) fuzzy_test max_iter (fuzzy_start e X k lr s)
              = Inr (st, n)"
    using loop by (simp add: fuzzy_loop_def)
  from loop_break_last [OF lb assms(2)] obtain prev where
    n: "0 < n" "n \<le> max_iter" and
    prev: "iterate (fuzzy_iter e X y k kmeans_X) (n - 1) (fuzzy_start e X k lr s) = Inr prev"
      "fuzzy_iter e X y k kmeans_X prev = Inr st" and
    t: "n < max_iter \<longrightarrow>
          test_at (fuzzy_iter e X y k kmeans_X) fuzzy_test (fuzzy_start e X k lr s) n"
    by blast
  have "iterate (fuzzy_iter e X y k kmeans_X) n (fuzzy_start e X k lr s) = Inr st"
    using loop_break_returns [OF lb] by simp
  then have "test_at (fuzzy_iter e X y k kmeans_X) fuzzy_test (fuzzy_start e X k lr s) n
               = fuzzy_test st prev"
    using prev(1) by (intro test_at_Inr)
  then have "n < max_iter \<longrightarrow> fuzzy_test st prev" using t by simp
  then show ?thesis using n loop prev out by blast
qed

section \<open>The entries of \<open>lmbda * probs\<close> are not negative\<close>

lemma times_finite: "isfinite (a * b) \<Longrightarrow> isfinite a \<and> isfinite b"
  by (cases a; cases b) (simp_all split: if_splits)

lemma times_nonneg:
  "isfinite a \<Longrightarrow> isfinite b \<Longrightarrow> Fin 0 \<le> a \<Longrightarrow> Fin 0 \<le> b \<Longrightarrow> Fin 0 \<le> a * b"
  by (cases a; cases b) simp_all

lemma gauss_nonneg:
  assumes "isfinite (fl_exp a / fl_sqrt b)"
  shows "Fin 0 \<le> fl_exp a / fl_sqrt b"
proof -
  have e: "(\<exists>r. fl_exp a = Fin r \<and> 0 \<le> r) \<or> fl_exp a = PInf \<or> fl_exp a = NaN"
    by (cases a) simp_all
  have s: "(\<exists>w. fl_sqrt b = Fin w \<and> 0 \<le> w) \<or> fl_sqrt b = PInf \<or> fl_sqrt b = NaN"
    by (cases b) simp_all
  from e s assms show ?thesis
    by (elim disjE exE conjE) (auto split: if_splits)
qed

lemma foldl_plus_nonneg:
  "Fin 0 \<le> a \<Longrightarrow> list_all (\<lambda>x. Fin 0 \<le> x) xs \<Longrightarrow> Fin 0 \<le> foldl (+) a xs"
proof (induction xs arbitrary: a)
  case Nil
  then show ?case by simp
next
  case (Cons x xs)
  have "Fin 0 \<le> a + x" using Cons.prems by (cases a; cases x) simp_all
  then show ?case using Cons by simp
qed

lemma fl_sum_nonneg: "list_all (\<lambda>x. Fin 0 \<le> x) xs \<Longrightarrow> Fin 0 \<le> fl_sum xs"
  by (simp add: fl_sum_def foldl_plus_nonneg)

lemma quotient_nonneg:
  "Fin 0 \<le> s \<Longrightarrow> 0 \<le> n \<Longrightarrow> isfinite (s / Fin n) \<Longrightarrow> Fin 0 \<le> s / Fin n"
  by (cases s) (simp_all split: if_splits)

lemma fuzzy_iter_lmbda_nonneg:
  assumes "fuzzy_iter e X y k kmeans_X st = Inr st'" and "nonneg_rows k (f_q st)"
    and "c < k" and "isfinite (f_lmbda st' ! c)"
  shows "Fin 0 \<le> f_lmbda st' ! c"
proof -
  have l: "f_lmbda st' ! c = fl_sum (col c (f_q st)) / Fin (real (length (rws X)))"
    using fuzzy_iter_lmbda [OF assms(1)] assms(3) by simp
  have "list_all (\<lambda>x. Fin 0 \<le> x) (col c (f_q st))"
    using assms(2,3) by (auto simp: col_def nonneg_rows_def list_all_iff)
  then have "Fin 0 \<le> fl_sum (col c (f_q st))" by (rule fl_sum_nonneg)
  then show ?thesis using assms(4) unfolding l by (intro quotient_nonneg) simp_all
qed

lemma e_step_column_entries:
  assumes "e_step_column e X y kmeans_X ms cs sig c = Inr colv"
    and "length y = length (rws X)"
  shows "length colv = length (rws X) \<and>
         (\<forall>i<length (rws X). \<exists>a b. colv ! i = fl_exp a / fl_sqrt b)"
proof -
  from assms(1) obtain p where p: "predict_all e (ms ! c) X = Inr p" and
    cv: "colv = map (\<lambda>(yi, pr, x).
                 fl_exp ((- fl_sq (yi - pr) - kmeans_X * sq_dist x (cs ! c)) / (Fin 2 * sig ! c))
                 / fl_sqrt (Fin pi * Fin 2 * sig ! c))
               (zip y (zip p (rws X)))"
    by (auto simp: e_step_column_def split: sum.splits)
  have lp: "length p = length (rws X)"
    using p by (auto simp: predict_all_def split: sum.splits if_splits)
  have len: "length colv = length (rws X)" using cv lp assms(2) by simp
  have "\<exists>a b. colv ! i = fl_exp a / fl_sqrt b" if i: "i < length (rws X)" for i
  proof -
    have "i < length (zip y (zip p (rws X)))" using i lp assms(2) by simp
    then have "colv ! i = (\<lambda>(yi, pr, x).
                 fl_exp ((- fl_sq (yi - pr) - kmeans_X * sq_dist x (cs ! c)) / (Fin 2 * sig ! c))
                 / fl_sqrt (Fin pi * Fin 2 * sig ! c)) (zip y (zip p (rws X)) ! i)"
      unfolding cv by (rule nth_map)
    then show ?thesis by (auto split: prod.splits)
  qed
  then show ?thesis using len by blast
qed

lemma fuzzy_iter_probs:
  assumes "fuzzy_iter e X y k kmeans_X st = Inr st'" and "length y = length (rws X)"
  shows "length (f_probs st') = length (rws X) \<and>
         (\<forall>i<length (rws X). length (f_probs st' ! i) = k \<and>
            (\<forall>c<k. \<exists>a b. f_probs st' ! i ! c = fl_exp a / fl_sqrt b))"
proof -
  obtain ms where ms: "emap (m_step_cluster e X y kmeans_X (f_q st) (f_models st)) [0..<k] = Inr ms"
    using assms(1) by (cases "emap (m_step_cluster e X y kmeans_X (f_q st) (f_models st)) [0..<k]")
      (simp_all add: fuzzy_iter_def)
  obtain pcols where
    pc: "emap (e_step_column e X y kmeans_X (map fst ms) (map (\<lambda>r. fst (snd r)) ms)
                 (map (\<lambda>r. snd (snd (snd r))) ms)) [0..<k] = Inr pcols"
    using assms(1) ms
    by (cases "emap (e_step_column e X y kmeans_X (map fst ms) (map (\<lambda>r. fst (snd r)) ms)
                 (map (\<lambda>r. snd (snd (snd r))) ms)) [0..<k]")
      (simp_all add: fuzzy_iter_def Let_def)
  have pr: "f_probs st' = rows_of_cols (length (rws X)) pcols"
    using assms(1) ms pc by (auto simp: fuzzy_iter_def Let_def)
  have n: "length pcols = k"
    "\<forall>c<k. e_step_column e X y kmeans_X (map fst ms) (map (\<lambda>r. fst (snd r)) ms)
                 (map (\<lambda>r. snd (snd (snd r))) ms) ([0..<k] ! c) = Inr (pcols ! c)"
    using emap_nth [OF pc] by simp_all
  have ent: "\<exists>a b. pcols ! c ! i = fl_exp a / fl_sqrt b"
    if c: "c < k" and i: "i < length (rws X)" for c i
  proof -
    have "e_step_column e X y kmeans_X (map fst ms) (map (\<lambda>r. fst (snd r)) ms)
                 (map (\<lambda>r. snd (snd (snd r))) ms) c = Inr (pcols ! c)"
      using n(2) c by auto
    from e_step_column_entries [OF this assms(2)] i show ?thesis by blast
  qed
  have "length (f_probs st' ! i) = k \<and> (\<forall>c<k. \<exists>a b. f_probs st' ! i ! c = fl_exp a / fl_sqrt b)"
    if i: "i < length (rws X)" for i
  proof -
    have row: "f_probs st' ! i = map (\<lambda>c. c ! i) pcols"
      using i by (simp add: pr rows_of_cols_def)
    show ?thesis using ent i n(1) by (simp add: row)
  qed
  moreover have "length (f_probs st') = length (rws X)" by (simp add: pr rows_of_cols_def)
  ultimately show ?thesis by blast
qed

lemma fuzzy_iter_mix_normalizable:
  assumes "fuzzy_iter e X y k kmeans_X st = Inr st'" and "length y = length (rws X)"
    and "nonneg_rows k (f_q st)"
    and "list_all finite_positive (mix (f_lmbda st') (f_probs st'))"
  shows "list_all normalizable (mix (f_lmbda st') (f_probs st')) \<and>
         list_all (\<lambda>row. length row = k) (mix (f_lmbda st') (f_probs st'))"
proof -
  let ?lam = "f_lmbda st'"
  let ?ps = "f_probs st'"
  have lam: "length ?lam = k" using fuzzy_iter_lmbda [OF assms(1)] by simp
  have ps: "length ?ps = length (rws X)"
    "\<forall>i<length (rws X). length (?ps ! i) = k \<and>
            (\<forall>c<k. \<exists>a b. ?ps ! i ! c = fl_exp a / fl_sqrt b)"
    using fuzzy_iter_probs [OF assms(1,2)] by simp_all
  have "normalizable (mix ?lam ?ps ! i) \<and> length (mix ?lam ?ps ! i) = k"
    if i: "i < length (rws X)" for i
  proof -
    have row: "mix ?lam ?ps ! i = map2 (*) ?lam (?ps ! i)" using i ps(1) by (simp add: mix_def)
    have lr: "length (?ps ! i) = k" using ps(2) i by simp
    have fp: "finite_positive (mix ?lam ?ps ! i)"
      using assms(4) i ps(1) by (simp add: list_all_length mix_def)
    have "isfinite x \<and> Fin 0 \<le> x" if x: "x \<in> set (mix ?lam ?ps ! i)" for x
    proof -
      from x obtain c where c: "c < k" and xc: "x = ?lam ! c * ?ps ! i ! c"
        unfolding row using lam lr by (auto simp: in_set_conv_nth)
      have fx: "isfinite x" using fp x by (simp add: finite_positive_def list_all_iff)
      then have f2: "isfinite (?lam ! c)" "isfinite (?ps ! i ! c)"
        using times_finite xc by blast+
      have 1: "Fin 0 \<le> ?lam ! c"
        using assms(1,3) c f2(1) by (rule fuzzy_iter_lmbda_nonneg)
      obtain a b where "?ps ! i ! c = fl_exp a / fl_sqrt b" using ps(2) i c by blast
      then have 2: "Fin 0 \<le> ?ps ! i ! c" using f2(2) gauss_nonneg by simp
      show ?thesis using fx f2 1 2 xc times_nonneg by simp
    qed
    then have "normalizable (mix ?lam ?ps ! i)"
      using fp by (simp add: normalizable_def finite_positive_def list_all_iff)
    then show ?thesis using lam lr by (simp add: row)
  qed
  moreover have "length (mix ?lam ?ps) = length (rws X)" using ps(1) by (simp add: mix_def)
  ultimately show ?thesis by (simp add: list_all_length)
qed

lemma stochastic_nonneg_rows:
  assumes "list_all stochastic (normalize_rows qs)" and "list_all (\<lambda>row. length row = k) qs"
  shows "nonneg_rows k (normalize_rows qs)"
  using assms
  by (auto simp: nonneg_rows_def normalize_rows_def stochastic_def list_all_iff)

lemma fuzzy_iter_stochastic:
  assumes "fuzzy_iter e X y k kmeans_X st = Inr st'" and "length y = length (rws X)"
    and "nonneg_rows k (f_q st)"
    and "list_all finite_positive (mix (f_lmbda st') (f_probs st'))"
  shows "list_all stochastic (f_q st') \<and> nonneg_rows k (f_q st')"
proof -
  have q: "f_q st' = normalize_rows (mix (f_lmbda st') (f_probs st'))"
    using assms(1) by (rule fuzzy_iter_q)
  have m: "list_all normalizable (mix (f_lmbda st') (f_probs st'))"
    "list_all (\<lambda>row. length row = k) (mix (f_lmbda st') (f_probs st'))"
    using fuzzy_iter_mix_normalizable [OF assms] by simp_all
  have s: "list_all stochastic (f_q st')" unfolding q using m(1) by (rule normalize_rows_stochastic)
  then have "nonneg_rows k (f_q st')" unfolding q using m(2) by (rule stochastic_nonneg_rows)
  then show ?thesis using s by simp
qed

lemma fuzzy_trace_stochastic:
  assumes "list_all normalizable rnd" and "list_all (\<lambda>row. length row = k) rnd"
    and "length y = length (rws X)"
    and "finite_trace e X y k kmeans_X j (fuzzy_init e X k lr rnd)"
  shows "\<exists>st. iterate (fuzzy_iter e X y k kmeans_X) j (fuzzy_init e X k lr rnd) = Inr st \<and>
           list_all stochastic (f_q st) \<and> nonneg_rows k (f_q st)"
  using assms(4)
proof (induction j)
  case 0
  have q: "f_q (fuzzy_init e X k lr rnd) = normalize_rows rnd" by (simp add: fuzzy_init_def)
  have s: "list_all stochastic (normalize_rows rnd)"
    using assms(1) by (rule normalize_rows_stochastic)
  then have "nonneg_rows k (normalize_rows rnd)" using assms(2) by (rule stochastic_nonneg_rows)
  then show ?case using s q by simp
next
  case (Suc j)
  then obtain st where st: "iterate (fuzzy_iter e X y k kmeans_X) j (fuzzy_init e X k lr rnd) = Inr st"
    "nonneg_rows k (f_q st)" by auto
  from Suc.prems st(1) obtain st' where
    it: "fuzzy_iter e X y k kmeans_X st = Inr st'" and
    fp: "list_all finite_positive (mix (f_lmbda st') (f_probs st'))"
    by (auto split: sum.splits)
  have "list_all stochastic (f_q st') \<and> nonneg_rows k (f_q st')"
    using it assms(3) st(2) fp by (rule fuzzy_iter_stochastic)
  moreover have "iterate (fuzzy_iter e X y k kmeans_X) (Suc j) (fuzzy_init e X k lr rnd) = Inr st'"
    using st(1) it by simp
  ultimately show ?case by blast
qed

text \<open>
  Claim C5, as amended. After initialization every row of \<open>q\<close> sums to 1 and has non-negative
  entries, provided every row of the random draws (numbers in \<open>[0, 1)\<close>) has a positive sum.
  After the E step of an iteration every row of \<open>q\<close> sums to 1 and has non-negative entries,
  provided the \<open>q\<close> that entered the iteration was non-negative and every row of
  \<open>lmbda * probs\<close> has finite entries and a positive sum; that the entries of \<open>lmbda * probs\<close>
  are not negative follows from the code. So the rows of \<open>q\<close> sum to 1 and stay non-negative
  throughout a run whose iterations all return with finite rows of positive sum. The
  arithmetic is exact here, so the sum is exactly 1.
\<close>

theorem fuzzy_rows_sum_to_one:
  "(list_all normalizable rnd \<longrightarrow> list_all stochastic (f_q (fuzzy_init e X k lr rnd))) \<and>
   (fuzzy_iter e X y k kmeans_X st = Inr st' \<and> length y = length (rws X) \<and>
      nonneg_rows k (f_q st) \<and>
      list_all finite_positive (mix (f_lmbda st') (f_probs st')) \<longrightarrow>
    list_all stochastic (f_q st') \<and> nonneg_rows k (f_q st')) \<and>
   (list_all normalizable rnd \<and> list_all (\<lambda>row. length row = k) rnd \<and>
      length y = length (rws X) \<and>
      finite_trace e X y k kmeans_X j (fuzzy_init e X k lr rnd) \<longrightarrow>
    (\<exists>st. iterate (fuzzy_iter e X y k kmeans_X) j (fuzzy_init e X k lr rnd) = Inr st \<and>
       list_all stochastic (f_q st) \<and> nonneg_rows k (f_q st)))"
proof (intro conjI impI)
  assume "list_all normalizable rnd"
  then show "list_all stochastic (f_q (fuzzy_init e X k lr rnd))"
    by (simp add: fuzzy_init_def normalize_rows_stochastic)
next
  assume a: "fuzzy_iter e X y k kmeans_X st = Inr st' \<and> length y = length (rws X) \<and>
      nonneg_rows k (f_q st) \<and>
      list_all finite_positive (mix (f_lmbda st') (f_probs st'))"
  have s: "list_all stochastic (f_q st') \<and> nonneg_rows k (f_q st')"
    using a by (intro fuzzy_iter_stochastic [of e X y k kmeans_X st st']) simp_all
  show "list_all stochastic (f_q st')" using s by simp
  show "nonneg_rows k (f_q st')" using s by simp
next
  assume a: "list_all normalizable rnd \<and> list_all (\<lambda>row. length row = k) rnd \<and>
      length y = length (rws X) \<and>
      finite_trace e X y k kmeans_X j (fuzzy_init e X k lr rnd)"
  then show "\<exists>st. iterate (fuzzy_iter e X y k kmeans_X) j (fuzzy_init e X k lr rnd) = Inr st \<and>
       list_all stochastic (f_q st) \<and> nonneg_rows k (f_q st)"
    using fuzzy_trace_stochastic [of rnd k y X e kmeans_X j lr] by blast
qed

lemma isclose_abs_only: "isclose 0 atol a b \<Longrightarrow> 0 \<le> rtol \<Longrightarrow> isclose rtol atol a b"
proof (cases a; cases b)
  fix x y assume ab: "a = Fin x" "b = Fin y" and c: "isclose 0 atol a b" and r: "0 \<le> rtol"
  have "0 \<le> rtol * \<bar>y\<bar>" using r by simp
  moreover have "\<bar>x - y\<bar> \<le> atol" using c ab by (simp add: isclose_def)
  ultimately have "\<bar>x - y\<bar> \<le> atol + rtol * \<bar>y\<bar>" by linarith
  then show "isclose rtol atol a b" using ab by (simp add: isclose_def)
qed (simp_all add: isclose_def)

lemma allclose_abs_only:
  assumes "allclose 0 atol a b" and "0 \<le> rtol"
  shows "allclose rtol atol a b"
proof -
  have "list_all2 (isclose 0 atol) r r' \<Longrightarrow> list_all2 (isclose rtol atol) r r'" for r r'
    using assms(2) by (auto simp: list_all2_conv_all_nth intro: isclose_abs_only)
  then show ?thesis using assms(1) by (auto simp: allclose_def list_all2_conv_all_nth)
qed

text \<open>
  Claim C3, as amended. The loop of \<open>fuzzy_clr\<close> returns after \<open>n \<le> max_iter\<close> iterations, in
  the state those iterations produce; it returns before \<open>max_iter\<close> only when the \<open>q\<close> after the
  E step of iteration \<open>n\<close> passes \<open>np.allclose(q_prev, q, atol=1e-5)\<close> against the \<open>q\<close> before
  the M step, that is \<open>|q_prev - q| \<le> 1e-5 + 1e-5 * |q|\<close> at every entry (the relative tolerance
  keeps its default), and no earlier iteration passed that test; the one other way the loop
  ends is an exception raised by an iteration it reached. Whenever the absolute tolerance
  alone is met, the test holds.
\<close>

theorem fuzzy_loop_stops:
  "(case fuzzy_loop e X y k kmeans_X max_iter st0 of
      Inr (st, n) \<Rightarrow>
        n \<le> max_iter \<and> iterate (fuzzy_iter e X y k kmeans_X) n st0 = Inr st \<and>
        (\<forall>j. 0 < j \<and> j < n \<longrightarrow> \<not> test_at (fuzzy_iter e X y k kmeans_X) fuzzy_test st0 j) \<and>
        (n < max_iter \<longrightarrow> 0 < n \<and> test_at (fuzzy_iter e X y k kmeans_X) fuzzy_test st0 n)
    | Inl err \<Rightarrow>
        \<exists>j<max_iter. iterate (fuzzy_iter e X y k kmeans_X) (Suc j) st0 = Inl err \<and>
          (\<forall>i. 0 < i \<and> i \<le> j \<longrightarrow> \<not> test_at (fuzzy_iter e X y k kmeans_X) fuzzy_test st0 i)) \<and>
   (\<forall>j. test_at (fuzzy_iter e X y k kmeans_X) fuzzy_test_abs st0 j \<longrightarrow>
        test_at (fuzzy_iter e X y k kmeans_X) fuzzy_test st0 j)"
proof (intro conjI)
  show "case fuzzy_loop e X y k kmeans_X max_iter st0 of
      Inr (st, n) \<Rightarrow>
        n \<le> max_iter \<and> iterate (fuzzy_iter e X y k kmeans_X) n st0 = Inr st \<and>
        (\<forall>j. 0 < j \<and> j < n \<longrightarrow> \<not> test_at (fuzzy_iter e X y k kmeans_X) fuzzy_test st0 j) \<and>
        (n < max_iter \<longrightarrow> 0 < n \<and> test_at (fuzzy_iter e X y k kmeans_X) fuzzy_test st0 n)
    | Inl err \<Rightarrow>
        \<exists>j<max_iter. iterate (fuzzy_iter e X y k kmeans_X) (Suc j) st0 = Inl err \<and>
          (\<forall>i. 0 < i \<and> i \<le> j \<longrightarrow> \<not> test_at (fuzzy_iter e X y k kmeans_X) fuzzy_test st0 i)"
  proof (cases "fuzzy_loop e X y k kmeans_X max_iter st0")
    case (Inl err)
    then have "loop_break (fuzzy_iter e X y k kmeans_X) fuzzy_test max_iter st0 = Inl err"
      by (simp add: fuzzy_loop_def)
    from loop_break_raises [OF this] show ?thesis using Inl by (simp del: iterate.simps)
  next
    case (Inr r)
    obtain st n where r: "r = (st, n)" by (cases r)
    have "loop_break (fuzzy_iter e X y k kmeans_X) fuzzy_test max_iter st0 = Inr (st, n)"
      using Inr r by (simp add: fuzzy_loop_def)
    from loop_break_returns [OF this] show ?thesis using Inr r by simp
  qed
  have "fuzzy_test_abs b a \<Longrightarrow> fuzzy_test b a" for a b :: "'a fuzzy_state"
    by (simp add: fuzzy_test_abs_def fuzzy_test_def allclose_abs_only)
  then show "\<forall>j. test_at (fuzzy_iter e X y k kmeans_X) fuzzy_test_abs st0 j \<longrightarrow>
        test_at (fuzzy_iter e X y k kmeans_X) fuzzy_test st0 j"
    by (auto simp: test_at_def split: sum.splits)
qed

text \<open>
  Claim C6. A call of \<open>fuzzy_clr\<close> with \<open>max_iter > 0\<close> that returns has executed \<open>n \<ge> 1\<close>
  iterations, and the objective it returns is \<open>-sum(log(sum(lmbda * probs, axis=1)))\<close> on the
  \<open>lmbda\<close> and \<open>probs\<close> of the state its last executed iteration produced, whether the loop ran
  \<open>max_iter\<close> iterations or left early at the convergence test.
\<close>

theorem fuzzy_clr_objective:
  assumes "fuzzy_clr e X y k kmeans_X max_iter lr s = Inr ((ls, ms, lam, obj), s')"
    and "0 < max_iter"
  shows "\<exists>n prev st. 0 < n \<and> n \<le> max_iter \<and>
           fuzzy_loop e X y k kmeans_X max_iter (fuzzy_start e X k lr s) = Inr (st, n) \<and>
           iterate (fuzzy_iter e X y k kmeans_X) (n - 1) (fuzzy_start e X k lr s) = Inr prev \<and>
           fuzzy_iter e X y k kmeans_X prev = Inr st \<and>
           (n < max_iter \<longrightarrow> fuzzy_test st prev) \<and>
           obj = neg_loglike (f_lmbda st) (f_probs st) \<and>
           obj = - fl_sum (map (\<lambda>row. fl_log (fl_sum (map2 (*) (f_lmbda st) row))) (f_probs st))"
proof -
  obtain n prev st where
    "0 < n" "n \<le> max_iter"
    "fuzzy_loop e X y k kmeans_X max_iter (fuzzy_start e X k lr s) = Inr (st, n)"
    "iterate (fuzzy_iter e X y k kmeans_X) (n - 1) (fuzzy_start e X k lr s) = Inr prev"
    "fuzzy_iter e X y k kmeans_X prev = Inr st"
    "n < max_iter \<longrightarrow> fuzzy_test st prev"
    "obj = neg_loglike (f_lmbda st) (f_probs st)"
    using fuzzy_clr_last_iteration [OF assms] by blast
  moreover have "neg_loglike (f_lmbda st) (f_probs st) =
      - fl_sum (map (\<lambda>row. fl_log (fl_sum (map2 (*) (f_lmbda st) row))) (f_probs st))"
    by (simp add: neg_loglike_def mix_def comp_def)
  ultimately show ?thesis by metis
qed

section \<open>The mixing weights \<open>fuzzy_clr\<close> returns\<close>

lemma sum_list_zeros: "sum_list (map (\<lambda>c. 0::real) xs) = 0"
  by (induction xs) simp_all

lemma column_sums_swap:
  assumes "\<forall>r\<in>set R. length r = k"
  shows "sum_list (map (\<lambda>c. sum_list (map (\<lambda>r. r ! c) R)) [0..<k]) =
         sum_list (map sum_list (R :: real list list))"
  using assms
proof (induction R)
  case Nil
  show ?case by (simp add: sum_list_zeros)
next
  case (Cons r R)
  have len: "length r = k" using Cons.prems by simp
  have "sum_list (map (\<lambda>c. sum_list (map (\<lambda>r. r ! c) (r # R))) [0..<k]) =
        sum_list (map (\<lambda>c. r ! c + sum_list (map (\<lambda>r. r ! c) R)) [0..<k])"
    by simp
  also have "\<dots> = sum_list (map (\<lambda>c. r ! c) [0..<k]) +
                  sum_list (map (\<lambda>c. sum_list (map (\<lambda>r. r ! c) R)) [0..<k])"
    by (rule sum_list_addf)
  also have "map (\<lambda>c. r ! c) [0..<k] = r" using len map_nth [of r] by simp
  also have "sum_list (map (\<lambda>c. sum_list (map (\<lambda>r. r ! c) R)) [0..<k]) = sum_list (map sum_list R)"
    using Cons by simp
  finally show ?case by simp
qed

lemma rows_as_reals:
  assumes "list_all (\<lambda>row. length row = k \<and> fl_sum row = Fin 1) qs"
  shows "\<exists>R. qs = map (map Fin) R \<and> (\<forall>r\<in>set R. length r = k \<and> sum_list r = 1)"
  using assms
proof (induction qs)
  case Nil
  then show ?case by simp
next
  case (Cons row qs)
  then obtain R where R: "qs = map (map Fin) R" "\<forall>r\<in>set R. length r = k \<and> sum_list r = 1"
    by auto
  obtain r where r: "row = map Fin r" "sum_list r = 1"
    using Cons.prems fl_sum_finite [of row 1] by auto
  have "length r = k" using Cons.prems r(1) by simp
  then have "row # qs = map (map Fin) (r # R) \<and> (\<forall>r\<in>set (r # R). length r = k \<and> sum_list r = 1)"
    using R r by simp
  then show ?case by (rule exI)
qed

lemma col_of_reals:
  assumes "\<forall>r\<in>set R. length r = k" and "c < k"
  shows "col c (map (map Fin) R) = map Fin (map (\<lambda>r. r ! c) R)"
  using assms by (simp add: col_def)

lemma column_means_sum_to_one:
  assumes "list_all (\<lambda>row. length row = k \<and> fl_sum row = Fin 1) qs" and "0 < length qs"
    and "length lam = k"
    and "\<forall>c<k. lam ! c = fl_sum (col c qs) / Fin (real (length qs))"
  shows "fl_sum lam = Fin 1"
proof -
  obtain R where R: "qs = map (map Fin) R" "\<forall>r\<in>set R. length r = k \<and> sum_list r = 1"
    using rows_as_reals [OF assms(1)] by blast
  let ?n = "real (length R)"
  have n: "0 < ?n" "length qs = length R" using assms(2) R(1) by simp_all
  have lens: "\<forall>r\<in>set R. length r = k" using R(2) by simp
  have ent: "lam ! c = Fin (sum_list (map (\<lambda>r. r ! c) R) / ?n)" if c: "c < k" for c
  proof -
    have "lam ! c = fl_sum (col c qs) / Fin ?n" using assms(4) c n(2) by simp
    also have "col c qs = map Fin (map (\<lambda>r. r ! c) R)"
      unfolding R(1) using lens c by (rule col_of_reals)
    finally show ?thesis using n(1) by (simp add: fl_sum_Fin del: map_map)
  qed
  have "lam = map Fin (map (\<lambda>c. sum_list (map (\<lambda>r. r ! c) R) / ?n) [0..<k])"
    using assms(3) ent by (simp add: list_eq_iff_nth_eq)
  then have "fl_sum lam = Fin (sum_list (map (\<lambda>c. sum_list (map (\<lambda>r. r ! c) R) / ?n) [0..<k]))"
    by (simp only: fl_sum_Fin)
  also have "sum_list (map (\<lambda>c. sum_list (map (\<lambda>r. r ! c) R) / ?n) [0..<k]) =
             sum_list (map (\<lambda>c. sum_list (map (\<lambda>r. r ! c) R)) [0..<k]) / ?n"
    using sum_list_mult_const [of "\<lambda>c. sum_list (map (\<lambda>r. r ! c) R)" "inverse ?n" "[0..<k]"]
    by (simp add: divide_inverse)
  also have "sum_list (map (\<lambda>c. sum_list (map (\<lambda>r. r ! c) R)) [0..<k]) = sum_list (map sum_list R)"
    using lens by (rule column_sums_swap)
  also have "map sum_list R = map (\<lambda>r. 1) R" using R(2) by simp
  also have "sum_list (map (\<lambda>r. 1::real) R) = ?n" by (simp add: sum_list_triv)
  finally show ?thesis using n(1) by simp
qed

text \<open>
  Claim C10. The third value a call of \<open>fuzzy_clr\<close> with \<open>max_iter > 0\<close> returns is \<open>lmbda\<close> as
  the M step of the last executed iteration computed it, untouched by the final hard
  assignment and refit: \<open>k\<close> entries, entry \<open>c\<close> the sum of column \<open>c\<close> of the \<open>q\<close> that entered
  that M step divided by the number \<open>N\<close> of points. When that \<open>q\<close> has \<open>N > 0\<close> rows of \<open>k\<close>
  entries, each summing to 1, the returned entries sum to 1.
\<close>

theorem fuzzy_clr_returns_lmbda:
  assumes "fuzzy_clr e X y k kmeans_X max_iter lr s = Inr ((ls, ms, lam, obj), s')"
    and "0 < max_iter"
  shows "\<exists>n prev st. 0 < n \<and> n \<le> max_iter \<and>
           fuzzy_loop e X y k kmeans_X max_iter (fuzzy_start e X k lr s) = Inr (st, n) \<and>
           iterate (fuzzy_iter e X y k kmeans_X) (n - 1) (fuzzy_start e X k lr s) = Inr prev \<and>
           fuzzy_iter e X y k kmeans_X prev = Inr st \<and>
           lam = f_lmbda st \<and> length lam = k \<and>
           (\<forall>c<k. lam ! c = fl_sum (col c (f_q prev)) / Fin (real (length (rws X)))) \<and>
           (0 < length (rws X) \<and> length (f_q prev) = length (rws X) \<and>
              list_all (\<lambda>row. length row = k \<and> fl_sum row = Fin 1) (f_q prev) \<longrightarrow>
            fl_sum lam = Fin 1)"
proof -
  obtain n prev st where
    a: "0 < n" "n \<le> max_iter"
    "fuzzy_loop e X y k kmeans_X max_iter (fuzzy_start e X k lr s) = Inr (st, n)"
    "iterate (fuzzy_iter e X y k kmeans_X) (n - 1) (fuzzy_start e X k lr s) = Inr prev" and
    b: "fuzzy_iter e X y k kmeans_X prev = Inr st" and
    c: "lam = f_lmbda st"
    using fuzzy_clr_last_iteration [OF assms] by blast
  have l: "length lam = k"
    "\<forall>c<k. lam ! c = fl_sum (col c (f_q prev)) / Fin (real (length (rws X)))"
    using fuzzy_iter_lmbda [OF b] c by simp_all
  have "fl_sum lam = Fin 1"
    if "0 < length (rws X) \<and> length (f_q prev) = length (rws X) \<and>
        list_all (\<lambda>row. length row = k \<and> fl_sum row = Fin 1) (f_q prev)"
    using that l by (intro column_means_sum_to_one [of k "f_q prev"]) simp_all
  then show ?thesis using a b c l by blast
qed

section \<open>A run of \<open>fuzzy_clr\<close> that stops at the relative tolerance\<close>

text \<open>
  Two points with target 1, two clusters, a regressor that always predicts 0, and the random
  draws \<open>near_half\<close>. Both clusters get variance 1 and every likelihood is \<open>unit_density\<close>, so
  the E step sets every row of \<open>q\<close> to \<open>lmbda = (0.500012, 0.499988)\<close>.
\<close>

lemma unit_density_pos: "0 < unit_density"
  by (simp add: unit_density_def)

lemma near_half_start:
  "fuzzy_start (const_env near_half) two_points 2 None 0 =
     \<lparr>f_q = near_half, f_models = [Fin 0, Fin 0], f_sigma_sq = [Fin 0, Fin 0],
      f_lmbda = [Fin 0, Fin 0], f_centers = [[Fin 0, Fin 0], [Fin 0, Fin 0]],
      f_probs = [[Fin 0, Fin 0], [Fin 0, Fin 0]]\<rparr>"
  by (simp add: fuzzy_start_def fuzzy_init_def const_env_def two_points_def near_half_def
      normalize_rows_def fl_sum_def empty_vec_def empty_mat_def eval_nat_numeral)

lemma near_half_m_step:
  assumes "qs = near_half \<or> qs = [[Fin (125003 / 250000), Fin (124997 / 250000)],
                                    [Fin (125003 / 250000), Fin (124997 / 250000)]]"
  shows "emap (m_step_cluster (const_env near_half) two_points [Fin 1, Fin 1] (Fin 0) qs
                 [Fin 0, Fin 0]) [0..<2] =
         Inr [(Fin 0, [Fin 0, Fin 0], Fin (125003 / 250000), Fin 1),
              (Fin 0, [Fin 0, Fin 0], Fin (124997 / 250000), Fin 1)]"
  using assms
  by (auto simp: m_step_cluster_def const_env_def two_points_def near_half_def col_def
      predict_all_def fl_sum_def fl_sq_def minus_fl_def sq_dist_def Let_def eval_nat_numeral)

lemma near_half_e_step:
  "emap (e_step_column (const_env near_half) two_points [Fin 1, Fin 1] (Fin 0) [Fin 0, Fin 0]
           [[Fin 0, Fin 0], [Fin 0, Fin 0]] [Fin 1, Fin 1]) [0..<2] =
   Inr [[Fin unit_density, Fin unit_density], [Fin unit_density, Fin unit_density]]"
  by (simp add: e_step_column_def const_env_def two_points_def predict_all_def fl_sum_def
      fl_sq_def minus_fl_def sq_dist_def Let_def eval_nat_numeral unit_density_def)

lemma near_half_normalize:
  "normalize_rows (mix [Fin (125003 / 250000), Fin (124997 / 250000)]
      [[Fin unit_density, Fin unit_density], [Fin unit_density, Fin unit_density]]) =
   [[Fin (125003 / 250000), Fin (124997 / 250000)],
    [Fin (125003 / 250000), Fin (124997 / 250000)]]"
proof -
  have s: "125003 / 250000 * unit_density + 124997 / 250000 * unit_density = unit_density"
    by simp
  have nz: "unit_density \<noteq> 0" using unit_density_pos by simp
  show ?thesis
    by (simp add: normalize_rows_def mix_def fl_sum_def s nz)
qed

lemma near_half_iter:
  assumes "qs = near_half \<or> qs = [[Fin (125003 / 250000), Fin (124997 / 250000)],
                                    [Fin (125003 / 250000), Fin (124997 / 250000)]]"
  shows "fuzzy_iter (const_env near_half) two_points [Fin 1, Fin 1] 2 (Fin 0)
           \<lparr>f_q = qs, f_models = [Fin 0, Fin 0], f_sigma_sq = sg, f_lmbda = lm, f_centers = cs,
            f_probs = ps\<rparr> =
         Inr \<lparr>f_q = [[Fin (125003 / 250000), Fin (124997 / 250000)],
                     [Fin (125003 / 250000), Fin (124997 / 250000)]],
              f_models = [Fin 0, Fin 0], f_sigma_sq = [Fin 1, Fin 1],
              f_lmbda = [Fin (125003 / 250000), Fin (124997 / 250000)],
              f_centers = [[Fin 0, Fin 0], [Fin 0, Fin 0]],
              f_probs = [[Fin unit_density, Fin unit_density],
                         [Fin unit_density, Fin unit_density]]\<rparr>"
proof -
  have r: "rows_of_cols (length (rws two_points)) [[Fin unit_density, Fin unit_density],
             [Fin unit_density, Fin unit_density]] =
           [[Fin unit_density, Fin unit_density], [Fin unit_density, Fin unit_density]]"
    by (simp add: rows_of_cols_def two_points_def eval_nat_numeral)
  show ?thesis
    unfolding fuzzy_iter_def
    by (simp add: near_half_m_step [OF assms] near_half_e_step r near_half_normalize Let_def)
qed

lemma iterate_one: "iterate body 1 st = body st"
  by (simp split: sum.splits)

lemma iterate_two:
  "iterate body 2 st = (case body st of Inl err \<Rightarrow> Inl err | Inr st' \<Rightarrow> body st')"
  by (simp add: eval_nat_numeral split: sum.splits)

lemma near_half_close:
  "allclose (1 / 10 ^ 5) (1 / 10 ^ 5) near_half
     [[Fin (125003 / 250000), Fin (124997 / 250000)],
      [Fin (125003 / 250000), Fin (124997 / 250000)]]"
  by (simp add: allclose_def isclose_def near_half_def)

lemma near_half_not_close_abs:
  "\<not> allclose 0 (1 / 10 ^ 5) near_half
     [[Fin (125003 / 250000), Fin (124997 / 250000)],
      [Fin (125003 / 250000), Fin (124997 / 250000)]]"
  by (simp add: allclose_def isclose_def near_half_def)

lemma near_half_loop:
  "fuzzy_loop (const_env near_half) two_points [Fin 1, Fin 1] 2 (Fin 0) 5
     (fuzzy_start (const_env near_half) two_points 2 None 0) =
   Inr (\<lparr>f_q = [[Fin (125003 / 250000), Fin (124997 / 250000)],
                 [Fin (125003 / 250000), Fin (124997 / 250000)]],
          f_models = [Fin 0, Fin 0], f_sigma_sq = [Fin 1, Fin 1],
          f_lmbda = [Fin (125003 / 250000), Fin (124997 / 250000)],
          f_centers = [[Fin 0, Fin 0], [Fin 0, Fin 0]],
          f_probs = [[Fin unit_density, Fin unit_density],
                     [Fin unit_density, Fin unit_density]]\<rparr>, 1)"
proof -
  have five: "(5::nat) = Suc 4" by simp
  show ?thesis
    unfolding near_half_start fuzzy_loop_def five loop_break.simps
    using near_half_close by (simp add: near_half_iter fuzzy_test_def)
qed

text \<open>
  Claim C3 as stated fails on that run: the first E step moves entries of \<open>q\<close> by \<open>1.2e-5\<close>,
  more than the absolute tolerance, and the loop stops after that iteration all the same,
  because \<open>np.allclose\<close> adds its default relative tolerance \<open>1e-5 * |q|\<close>.
\<close>

theorem fuzzy_loop_stops_beyond_atol:
  "map_sum id (\<lambda>(st, n). (f_q st, n))
     (fuzzy_loop (const_env near_half) two_points [Fin 1, Fin 1] 2 (Fin 0) 5
        (fuzzy_start (const_env near_half) two_points 2 None 0)) =
     Inr ([[Fin (125003 / 250000), Fin (124997 / 250000)],
           [Fin (125003 / 250000), Fin (124997 / 250000)]], 1) \<and>
   f_q (fuzzy_start (const_env near_half) two_points 2 None 0) = near_half \<and>
   \<not> allclose 0 (1 / 10 ^ 5) near_half
       [[Fin (125003 / 250000), Fin (124997 / 250000)],
        [Fin (125003 / 250000), Fin (124997 / 250000)]]"
  using near_half_not_close_abs by (simp add: near_half_loop) (simp add: near_half_start)

theorem fuzzy_loop_stops_witness:
  "fuzzy_loop (const_env near_half) two_points [Fin 1, Fin 1] 2 (Fin 0) 5
     (fuzzy_start (const_env near_half) two_points 2 None 0) =
   Inr (\<lparr>f_q = [[Fin (125003 / 250000), Fin (124997 / 250000)],
                 [Fin (125003 / 250000), Fin (124997 / 250000)]],
          f_models = [Fin 0, Fin 0], f_sigma_sq = [Fin 1, Fin 1],
          f_lmbda = [Fin (125003 / 250000), Fin (124997 / 250000)],
          f_centers = [[Fin 0, Fin 0], [Fin 0, Fin 0]],
          f_probs = [[Fin unit_density, Fin unit_density],
                     [Fin unit_density, Fin unit_density]]\<rparr>, 1) \<and>
   (1::nat) < 5 \<and>
   test_at (fuzzy_iter (const_env near_half) two_points [Fin 1, Fin 1] 2 (Fin 0)) fuzzy_test
     (fuzzy_start (const_env near_half) two_points 2 None 0) 1 \<and>
   test_at (fuzzy_iter (const_env near_half) two_points [Fin 1, Fin 1] 2 (Fin 0)) fuzzy_test_abs
     (fuzzy_start (const_env near_half) two_points 2 None 0) 2 \<and>
   test_at (fuzzy_iter (const_env near_half) two_points [Fin 1, Fin 1] 2 (Fin 0)) fuzzy_test
     (fuzzy_start (const_env near_half) two_points 2 None 0) 2"
proof -
  let ?B = "fuzzy_iter (const_env near_half) two_points [Fin 1, Fin 1] 2 (Fin 0)"
  let ?st0 = "fuzzy_start (const_env near_half) two_points 2 None 0"
  let ?st1 = "\<lparr>f_q = [[Fin (125003 / 250000), Fin (124997 / 250000)],
                 [Fin (125003 / 250000), Fin (124997 / 250000)]],
          f_models = [Fin 0, Fin 0], f_sigma_sq = [Fin 1, Fin 1],
          f_lmbda = [Fin (125003 / 250000), Fin (124997 / 250000)],
          f_centers = [[Fin 0, Fin 0], [Fin 0, Fin 0]],
          f_probs = [[Fin unit_density, Fin unit_density],
                     [Fin unit_density, Fin unit_density]]\<rparr>"
  note th = fuzzy_loop_stops [where e = "const_env near_half" and X = two_points
      and y = "[Fin 1, Fin 1]" and k = 2 and kmeans_X = "Fin 0" and max_iter = 5
      and ?st0.0 = ?st0]
  from th have t1: "test_at ?B fuzzy_test ?st0 1"
    by (simp add: near_half_loop del: iterate.simps)
  have same: "allclose 0 (1 / 10 ^ 5)
     [[Fin (125003 / 250000), Fin (124997 / 250000)],
      [Fin (125003 / 250000), Fin (124997 / 250000)]]
     [[Fin (125003 / 250000), Fin (124997 / 250000)],
      [Fin (125003 / 250000), Fin (124997 / 250000)]]"
    by (simp add: allclose_def isclose_def)
  have "iterate ?B (2 - 1) ?st0 = Inr ?st1" "iterate ?B 2 ?st0 = Inr ?st1"
    unfolding near_half_start by (simp_all add: iterate_one iterate_two near_half_iter)
  then have "test_at ?B fuzzy_test_abs ?st0 2 = fuzzy_test_abs ?st1 ?st1"
    by (rule test_at_Inr)
  then have t2: "test_at ?B fuzzy_test_abs ?st0 2"
    using same by (simp add: fuzzy_test_abs_def)
  from th t2 have t3: "test_at ?B fuzzy_test ?st0 2" by blast
  show ?thesis using t1 t2 t3 by (simp add: near_half_loop)
qed

text \<open>
  Claim C5 on the same run: the rows of the random draws can be normalized, the rows of
  \<open>lmbda * probs\<close> are finite with a positive sum, and the rows of \<open>q\<close> sum to 1 before and after
  the iteration.
\<close>

theorem fuzzy_rows_sum_to_one_witness:
  "list_all normalizable near_half \<and>
   list_all (\<lambda>row. length row = 2) near_half \<and>
   length [Fin 1, Fin 1 :: fl] = length (rws two_points) \<and>
   list_all stochastic (f_q (fuzzy_init (const_env near_half) two_points 2 None near_half)) \<and>
   nonneg_rows 2 (f_q (fuzzy_init (const_env near_half) two_points 2 None near_half)) \<and>
   fuzzy_iter (const_env near_half) two_points [Fin 1, Fin 1] 2 (Fin 0)
     (fuzzy_init (const_env near_half) two_points 2 None near_half) =
     Inr \<lparr>f_q = [[Fin (125003 / 250000), Fin (124997 / 250000)],
                 [Fin (125003 / 250000), Fin (124997 / 250000)]],
          f_models = [Fin 0, Fin 0], f_sigma_sq = [Fin 1, Fin 1],
          f_lmbda = [Fin (125003 / 250000), Fin (124997 / 250000)],
          f_centers = [[Fin 0, Fin 0], [Fin 0, Fin 0]],
          f_probs = [[Fin unit_density, Fin unit_density],
                     [Fin unit_density, Fin unit_density]]\<rparr> \<and>
   list_all finite_positive (mix [Fin (125003 / 250000), Fin (124997 / 250000)]
      [[Fin unit_density, Fin unit_density], [Fin unit_density, Fin unit_density]]) \<and>
   finite_trace (const_env near_half) two_points [Fin 1, Fin 1] 2 (Fin 0) 1
     (fuzzy_init (const_env near_half) two_points 2 None near_half) \<and>
   list_all stochastic [[Fin (125003 / 250000), Fin (124997 / 250000)],
                        [Fin (125003 / 250000), Fin (124997 / 250000)]]"
proof -
  let ?e = "const_env near_half"
  let ?st0 = "fuzzy_init ?e two_points 2 None near_half"
  let ?st1 = "\<lparr>f_q = [[Fin (125003 / 250000), Fin (124997 / 250000)],
                 [Fin (125003 / 250000), Fin (124997 / 250000)]],
          f_models = [Fin 0, Fin 0], f_sigma_sq = [Fin 1, Fin 1],
          f_lmbda = [Fin (125003 / 250000), Fin (124997 / 250000)],
          f_centers = [[Fin 0, Fin 0], [Fin 0, Fin 0]],
          f_probs = [[Fin unit_density, Fin unit_density],
                     [Fin unit_density, Fin unit_density]]\<rparr>"
  have st0: "?st0 = fuzzy_start ?e two_points 2 None 0"
    by (simp add: fuzzy_start_def const_env_def)
  have n0: "list_all normalizable near_half" "list_all (\<lambda>row. length row = 2) near_half"
    by (simp_all add: normalizable_def near_half_def fl_sum_def)
  have ly: "length [Fin 1, Fin 1 :: fl] = length (rws two_points)"
    by (simp add: two_points_def)
  have it: "fuzzy_iter ?e two_points [Fin 1, Fin 1] 2 (Fin 0) ?st0 = Inr ?st1"
    unfolding st0 near_half_start by (simp add: near_half_iter)
  have s: "125003 / 250000 * unit_density + 124997 / 250000 * unit_density = unit_density"
    by simp
  have fp: "list_all finite_positive (mix [Fin (125003 / 250000), Fin (124997 / 250000)]
      [[Fin unit_density, Fin unit_density], [Fin unit_density, Fin unit_density]])"
    using unit_density_pos by (simp add: finite_positive_def mix_def fl_sum_def s)
  have tr: "finite_trace ?e two_points [Fin 1, Fin 1] 2 (Fin 0) 1 ?st0"
    using it fp by simp
  note th = fuzzy_rows_sum_to_one [where rnd = near_half and e = ?e
      and X = two_points and k = 2 and lr = None and y = "[Fin 1, Fin 1]" and kmeans_X = "Fin 0"
      and st = ?st0 and st' = ?st1 and j = 1]
  from th n0 have a: "list_all stochastic (f_q ?st0)" by blast
  from th n0 ly tr have "\<exists>st. iterate (fuzzy_iter ?e two_points [Fin 1, Fin 1] 2 (Fin 0)) 1 ?st0 = Inr st \<and>
       list_all stochastic (f_q st) \<and> nonneg_rows 2 (f_q st)"
    by blast
  then have c: "list_all stochastic [[Fin (125003 / 250000), Fin (124997 / 250000)],
                        [Fin (125003 / 250000), Fin (124997 / 250000)]]"
    using it by simp
  have nn: "nonneg_rows 2 (f_q ?st0)"
    unfolding st0 near_half_start by (simp add: nonneg_rows_def near_half_def)
  show ?thesis using n0 ly a nn it fp tr c by blast
qed

text \<open>
  Claim C5 as stated fails when a variance is 0. One point with target 0 and the regressor
  predicting 0: the residual is 0, \<open>sigma_sq\<close> is 0, the likelihood is \<open>exp(0 / 0) / sqrt(0)\<close>, and
  the E step leaves \<open>q = [[nan]]\<close>, a row that neither sums to 1 nor is non-negative.
\<close>

theorem fuzzy_rows_nan:
  "map_sum id f_q
     (fuzzy_iter (const_env [[Fin (1 / 2)]]) one_point [Fin 0] 1 (Fin 0)
        (fuzzy_start (const_env [[Fin (1 / 2)]]) one_point 1 None 0)) = Inr [[NaN]] \<and>
   f_q (fuzzy_start (const_env [[Fin (1 / 2)]]) one_point 1 None 0) = [[Fin 1]] \<and>
   \<not> stochastic [NaN]"
  by (simp add: fuzzy_iter_def fuzzy_start_def fuzzy_init_def m_step_cluster_def
      e_step_column_def const_env_def one_point_def col_def predict_all_def fl_sum_def fl_sq_def
      minus_fl_def sq_dist_def Let_def normalize_rows_def mix_def rows_of_cols_def
      empty_vec_def empty_mat_def stochastic_def eval_nat_numeral)

lemma near_half_call:
  "fuzzy_clr (const_env near_half) two_points [Fin 1, Fin 1] 2 (Fin 0) 5 None 0 =
     Inr (([0, 0], [Fin 0, Fin 0], [Fin (125003 / 250000), Fin (124997 / 250000)],
           Fin (- (2 * ln unit_density))), 4)"
proof -
  have rn: "random_rand (const_env near_half) (length (rws two_points)) 2 0 = (near_half, 4)"
    by (simp add: const_env_def two_points_def)
  have st: "fuzzy_init (const_env near_half) two_points 2 None near_half =
              fuzzy_start (const_env near_half) two_points 2 None 0"
    by (simp add: fuzzy_start_def rn)
  have wf: "wf_mat two_points" "length (rws two_points) = 2"
    unfolding wf_mat_def two_points_def by simp_all
  have s: "125003 / 250000 * unit_density + 124997 / 250000 * unit_density = unit_density"
    by simp
  have ll: "neg_loglike [Fin (125003 / 250000), Fin (124997 / 250000)]
              [[Fin unit_density, Fin unit_density], [Fin unit_density, Fin unit_density]] =
            Fin (- (2 * ln unit_density))"
    using unit_density_pos by (simp add: neg_loglike_def mix_def fl_sum_def s)
  have am: "argmax_axis1 2 [[Fin (125003 / 250000), Fin (124997 / 250000)],
                            [Fin (125003 / 250000), Fin (124997 / 250000)]] = Inr [0, 0]"
    by (simp add: argmax_axis1_def argmax_def)
  have ft: "fit_models (const_env near_half) two_points [Fin 1, Fin 1] [0, 0] [0..<2]
              [Fin 0, Fin 0] = Inr [Fin 0, Fin 0]"
    by (simp add: count_label_def const_env_def eval_nat_numeral)
  show ?thesis
    unfolding fuzzy_clr_def rn
    by (simp add: wf st near_half_loop ll am ft del: One_nat_def)
qed

theorem fuzzy_clr_objective_witness:
  "fuzzy_clr (const_env near_half) two_points [Fin 1, Fin 1] 2 (Fin 0) 5 None 0 =
     Inr (([0, 0], [Fin 0, Fin 0], [Fin (125003 / 250000), Fin (124997 / 250000)],
           Fin (- (2 * ln unit_density))), 4) \<and>
   (0::nat) < 5 \<and>
   Fin (- (2 * ln unit_density)) =
     neg_loglike [Fin (125003 / 250000), Fin (124997 / 250000)]
       [[Fin unit_density, Fin unit_density], [Fin unit_density, Fin unit_density]]"
proof -
  have pos: "(0::nat) < 5" by simp
  obtain n st where
    l: "fuzzy_loop (const_env near_half) two_points [Fin 1, Fin 1] 2 (Fin 0) 5
          (fuzzy_start (const_env near_half) two_points 2 None 0) = Inr (st, n)" and
    o: "Fin (- (2 * ln unit_density)) = neg_loglike (f_lmbda st) (f_probs st)"
    using fuzzy_clr_objective [OF near_half_call pos] by blast
  have "Fin (- (2 * ln unit_density)) =
     neg_loglike [Fin (125003 / 250000), Fin (124997 / 250000)]
       [[Fin unit_density, Fin unit_density], [Fin unit_density, Fin unit_density]]"
    using l o unfolding near_half_loop by auto
  then show ?thesis using near_half_call by simp
qed

theorem fuzzy_clr_returns_lmbda_witness:
  "fuzzy_clr (const_env near_half) two_points [Fin 1, Fin 1] 2 (Fin 0) 5 None 0 =
     Inr (([0, 0], [Fin 0, Fin 0], [Fin (125003 / 250000), Fin (124997 / 250000)],
           Fin (- (2 * ln unit_density))), 4) \<and>
   (0::nat) < 5 \<and>
   fl_sum [Fin (125003 / 250000), Fin (124997 / 250000)] = Fin 1 \<and>
   [Fin (125003 / 250000), Fin (124997 / 250000)] =
     map (\<lambda>c. fl_sum (col c near_half) / Fin (real (length (rws two_points)))) [0..<2] \<and>
   cluster_weights 2 [0, 0] = [Fin 1, Fin 0]"
proof -
  let ?B = "fuzzy_iter (const_env near_half) two_points [Fin 1, Fin 1] 2 (Fin 0)"
  let ?st0 = "fuzzy_start (const_env near_half) two_points 2 None 0"
  let ?lam = "[Fin (125003 / 250000), Fin (124997 / 250000)]"
  have pos: "(0::nat) < 5" by simp
  obtain n prev st where
    l: "fuzzy_loop (const_env near_half) two_points [Fin 1, Fin 1] 2 (Fin 0) 5 ?st0 = Inr (st, n)" and
    p: "iterate ?B (n - 1) ?st0 = Inr prev" and
    e: "\<forall>c<2. ?lam ! c = fl_sum (col c (f_q prev)) / Fin (real (length (rws two_points)))" and
    i: "0 < length (rws two_points) \<and> length (f_q prev) = length (rws two_points) \<and>
              list_all (\<lambda>row. length row = 2 \<and> fl_sum row = Fin 1) (f_q prev) \<longrightarrow>
            fl_sum ?lam = Fin 1"
    using fuzzy_clr_returns_lmbda [OF near_half_call pos] by blast
  have "n = 1" using l unfolding near_half_loop by simp
  then have "prev = ?st0" using p by simp
  then have q: "f_q prev = near_half" by (simp add: near_half_start)
  have 1: "fl_sum ?lam = Fin 1"
    using i unfolding q by (simp add: two_points_def near_half_def fl_sum_def)
  have 2: "?lam = map (\<lambda>c. fl_sum (col c near_half) / Fin (real (length (rws two_points)))) [0..<2]"
    using e unfolding q by (simp add: list_eq_iff_nth_eq)
  have 3: "cluster_weights 2 [0, 0] = [Fin 1, Fin 0]"
    by (simp add: cluster_weights_def count_label_def fl_sum_def Let_def eval_nat_numeral)
  show ?thesis using near_half_call 1 2 3 by simp
qed

text \<open>
  Claim C8 as stated fails on a run of \<open>fuzzy_clr\<close> itself. On one point with target 0 and the
  regressor predicting 0 (two iterations allowed) the call returns labels, models and weights
  with the objective NaN, and \<open>best_clr\<close> with \<open>fuzzy=True\<close> and \<open>num_tries=1\<close> raises instead of
  returning them.
\<close>

theorem best_clr_single_try_nan:
  "fuzzy_clr (const_env [[Fin (1 / 2)]]) one_point [Fin 0] 1 (Fin 0) 2 None 0 =
     Inr (([0], [Fin 0], [NaN], NaN), 1) \<and>
   best_clr (clr (const_env [[Fin (1 / 2)]]) one_point [Fin 0] 1 (Fin 0) None None 2 None)
     (fuzzy_clr (const_env [[Fin (1 / 2)]]) one_point [Fin 0] 1 (Fin 0) 2 None) True 1 0 =
     Inl UnboundLocalError"
proof -
  have run: "fuzzy_clr (const_env [[Fin (1 / 2)]]) one_point [Fin 0] 1 (Fin 0) 2 None 0 =
     Inr (([0], [Fin 0], [NaN], NaN), 1)"
    by (simp add: fuzzy_clr_def fuzzy_loop_def fuzzy_test_def allclose_def isclose_def
      fuzzy_iter_def fuzzy_init_def m_step_cluster_def
      e_step_column_def const_env_def one_point_def col_def predict_all_def fl_sum_def fl_sq_def
      minus_fl_def sq_dist_def Let_def normalize_rows_def mix_def rows_of_cols_def
      empty_vec_def empty_mat_def wf_mat_def neg_loglike_def argmax_axis1_def argmax_def
      count_label_def select_rows_def select_def eval_nat_numeral)
  have "best_clr (clr (const_env [[Fin (1 / 2)]]) one_point [Fin 0] 1 (Fin 0) None None 2 None)
     (fuzzy_clr (const_env [[Fin (1 / 2)]]) one_point [Fin 0] 1 (Fin 0) 2 None) True 1 0 =
     Inl UnboundLocalError"
    unfolding best_clr_def using run by simp
  then show ?thesis using run by simp
qed

section \<open>The multi-start driver keeps the first best run\<close>

lemma fl_less_trans: "(a::fl) < b \<Longrightarrow> b < c \<Longrightarrow> a < c"
  by (cases a; cases b; cases c) auto

lemma fl_le_less_trans: "(a::fl) \<le> b \<Longrightarrow> b < c \<Longrightarrow> a < c"
  by (cases a; cases b; cases c) auto

lemma fl_less_irrefl: "\<not> (a::fl) < a"
  by (cases a) auto

lemma fl_less_not_nan: "(a::fl) < b \<Longrightarrow> \<not> isnan a \<and> \<not> isnan b"
  by (cases a; cases b) auto

lemma fl_less_PInf: "(a::fl) < b \<Longrightarrow> a < PInf"
  by (cases a; cases b) auto

lemma fl_not_less_PInf: "(\<not> (a::fl) < PInf) = (a = NaN \<or> a = PInf)"
  by (cases a) auto

lemma tries_loop_runs:
  assumes "runs clr_func n s = Inr (rs, s')"
  shows "tries_loop clr_func n bb s = Inr (foldl keep_better bb rs, s')"
  using assms
proof (induction n arbitrary: s rs bb)
  case 0
  then show ?case by simp
next
  case (Suc n)
  obtain b best where bb: "bb = (b, best)" by (cases bb)
  from Suc.prems obtain r s1 where r: "clr_func s = Inr (r, s1)"
    by (auto split: sum.splits)
  with Suc.prems obtain rs1 where rs1: "runs clr_func n s1 = Inr (rs1, s')" "rs = r # rs1"
    by (auto split: sum.splits)
  obtain l m w obj where rr: "r = (l, m, w, obj)" by (cases r)
  have "tries_loop clr_func (Suc n) bb s = tries_loop clr_func n (keep_better bb r) s1"
    using r bb rr by simp
  also have "\<dots> = Inr (foldl keep_better (keep_better bb r) rs1, s')"
    using rs1(1) by (rule Suc.IH)
  finally show ?case using rs1(2) by simp
qed

lemma runs_length: "runs clr_func n s = Inr (rs, s') \<Longrightarrow> length rs = n"
  by (induction n arbitrary: s rs) (auto split: sum.splits)

lemma best_inv_step:
  assumes "best_inv rs bb"
  shows "best_inv (rs @ [r]) (keep_better bb r)"
proof -
  obtain b best where bb: "bb = (b, best)" by (cases bb)
  obtain l m w x where r: "r = (l, m, w, x)" by (cases r)
  have nn: "\<not> isnan b" and old: "\<forall>j<length rs. \<not> obj_of (rs ! j) < b"
    using assms bb by (simp_all add: best_inv_def)
  show ?thesis
  proof (cases "x < b")
    case True
    have 1: "\<not> isnan x" using True fl_less_not_nan by blast
    have 2: "\<forall>j<length (rs @ [r]). \<not> obj_of ((rs @ [r]) ! j) < x"
      using old True r by (auto simp: nth_append less_Suc_eq fl_less_irrefl dest: fl_less_trans)
    have 3: "\<forall>j<length rs. \<not> obj_of ((rs @ [r]) ! j) \<le> x"
      using old True by (auto simp: nth_append dest: fl_le_less_trans)
    have 4: "x < PInf" using True by (rule fl_less_PInf)
    have "\<exists>i<length (rs @ [r]). (rs @ [r]) ! i = (l, m, w, x) \<and> x < PInf \<and>
               (\<forall>j<i. \<not> obj_of ((rs @ [r]) ! j) \<le> x)"
      using 3 4 r by (intro exI [of _ "length rs"]) simp
    then show ?thesis using True bb r 1 2 by (simp add: best_inv_def)
  next
    case False
    have 2: "\<forall>j<length (rs @ [r]). \<not> obj_of ((rs @ [r]) ! j) < b"
      using old False r by (auto simp: nth_append less_Suc_eq)
    have 3: "case best of
           None \<Rightarrow> b = PInf
         | Some (l, m, w) \<Rightarrow>
             \<exists>i<length (rs @ [r]). (rs @ [r]) ! i = (l, m, w, b) \<and> b < PInf \<and>
               (\<forall>j<i. \<not> obj_of ((rs @ [r]) ! j) \<le> b)"
    proof (cases best)
      case None
      then show ?thesis using assms bb by (simp add: best_inv_def)
    next
      case (Some t)
      obtain l' m' w' where t: "t = (l', m', w')" by (cases t)
      from assms bb Some t obtain i where i: "i < length rs" "rs ! i = (l', m', w', b)" "b < PInf"
        "\<forall>j<i. \<not> obj_of (rs ! j) \<le> b"
        by (auto simp: best_inv_def)
      have "i < length (rs @ [r]) \<and> (rs @ [r]) ! i = (l', m', w', b) \<and> b < PInf \<and>
               (\<forall>j<i. \<not> obj_of ((rs @ [r]) ! j) \<le> b)"
        using i by (auto simp: nth_append)
      then show ?thesis using Some t by auto
    qed
    have "keep_better bb r = (b, best)" using False bb r by simp
    then show ?thesis using nn 2 3 by (simp add: best_inv_def)
  qed
qed

lemma best_inv_foldl: "best_inv rs (foldl keep_better (PInf, None) rs)"
proof (induction rs rule: rev_induct)
  case Nil
  show ?case by (simp add: best_inv_def)
next
  case (snoc r rs)
  then show ?case using best_inv_step [of rs _ r] by simp
qed
lemma best_clr_runs:
  assumes "runs (if fuzzy then fuzzy_run else clr_run) (nat num_tries) s = Inr (rs, s')"
  shows "best_clr clr_run fuzzy_run fuzzy num_tries s =
           (case foldl keep_better (PInf, None) rs of
              (best_obj, None) \<Rightarrow> Inl UnboundLocalError
            | (best_obj, Some (l, m, w)) \<Rightarrow> Inr ((l, m, w, best_obj), s'))"
  using tries_loop_runs [OF assms, of "(PInf, None)"]
  by (simp add: best_clr_def split: prod.splits option.splits)

text \<open>
  Claim C7, as amended. When all the runs of a call return and at least one objective is
  strictly below \<open>+inf\<close>, \<open>best_clr\<close> returns the whole result of one of the runs; no run has a
  strictly lower objective, the returned objective is \<open>\<le>\<close> the objective of every run whose
  objective is not NaN, and no earlier run has an objective \<open>\<le>\<close> the returned one (the first
  run attaining the minimum is kept).
\<close>

theorem best_clr_best_of:
  assumes "runs (if fuzzy then fuzzy_run else clr_run) (nat num_tries) s = Inr (rs, s')"
    and "\<exists>r\<in>set rs. obj_of r < PInf"
  shows "\<exists>i<length rs.
           best_clr clr_run fuzzy_run fuzzy num_tries s = Inr (rs ! i, s') \<and>
           (\<forall>j<length rs. \<not> obj_of (rs ! j) < obj_of (rs ! i)) \<and>
           (\<forall>j<length rs. \<not> isnan (obj_of (rs ! j)) \<longrightarrow> obj_of (rs ! i) \<le> obj_of (rs ! j)) \<and>
           (\<forall>j<i. \<not> obj_of (rs ! j) \<le> obj_of (rs ! i))"
proof -
  obtain b best where fb: "foldl keep_better (PInf, None) rs = (b, best)"
    by (cases "foldl keep_better (PInf, None) rs")
  have inv: "best_inv rs (b, best)" using best_inv_foldl [of rs] fb by simp
  then have nn: "\<not> isnan b" and nb: "\<forall>j<length rs. \<not> obj_of (rs ! j) < b"
    by (simp_all add: best_inv_def)
  have "best \<noteq> None"
  proof
    assume "best = None"
    then have "b = PInf" using inv by (simp add: best_inv_def)
    then have "\<forall>j<length rs. \<not> obj_of (rs ! j) < PInf" using nb by simp
    then have "\<forall>r\<in>set rs. \<not> obj_of r < PInf" by (metis in_set_conv_nth)
    then show False using assms(2) by blast
  qed
  then obtain l m w where best: "best = Some (l, m, w)" by (cases best) auto
  then obtain i where i: "i < length rs" "rs ! i = (l, m, w, b)"
    "\<forall>j<i. \<not> obj_of (rs ! j) \<le> b"
    using inv by (auto simp: best_inv_def)
  have ob: "obj_of (rs ! i) = b" using i(2) by simp
  have res: "best_clr clr_run fuzzy_run fuzzy num_tries s = Inr (rs ! i, s')"
    using best_clr_runs [OF assms(1)] fb best i(2) by simp
  have le: "\<forall>j<length rs. \<not> isnan (obj_of (rs ! j)) \<longrightarrow> b \<le> obj_of (rs ! j)"
    using nb nn fl_not_le_less fl_le_total by blast
  show ?thesis using i(1) res nb le i(3) unfolding ob [symmetric] by blast
qed

theorem best_clr_best_of_witness:
  "runs (if False then scripted [Fin 3, NaN, Fin 1, Fin 1] else scripted [Fin 3, NaN, Fin 1, Fin 1])
      (nat 4) 0 =
     Inr ([([0], [], [], Fin 3), ([1], [], [], NaN), ([2], [], [], Fin 1), ([3], [], [], Fin 1)], 4) \<and>
   obj_of (([0], [], [], Fin 3) :: unit result) < PInf \<and>
   best_clr (scripted [Fin 3, NaN, Fin 1, Fin 1]) (scripted [Fin 3, NaN, Fin 1, Fin 1]) False 4 0 =
     Inr (([2], [], [], Fin 1), 4)"
  using best_clr_best_of [of False "scripted [Fin 3, NaN, Fin 1, Fin 1]"
      "scripted [Fin 3, NaN, Fin 1, Fin 1]" 4 0
      "[([0], [], [], Fin 3), ([1], [], [], NaN), ([2], [], [], Fin 1), ([3], [], [], Fin 1)]" 4]
  by (simp add: best_clr_def scripted_def eval_nat_numeral)

text \<open>
  Claim C7 as stated fails on objectives that are not finite. Two runs with objective \<open>+inf\<close>
  leave the \<open>best_*\<close> names unbound and the call raises; and after a run with objective NaN
  and a run with objective 1 the call returns 1, which is not \<open>\<le>\<close> NaN.
\<close>

theorem best_clr_not_below_every_run:
  "best_clr (scripted [PInf, PInf]) (scripted [PInf, PInf]) False 2 0 = Inl UnboundLocalError \<and>
   best_clr (scripted [NaN, Fin 1]) (scripted [NaN, Fin 1]) False 2 0 = Inr (([1], [], [], Fin 1), 2) \<and>
   \<not> Fin 1 \<le> NaN"
  by (simp add: best_clr_def scripted_def eval_nat_numeral)

text \<open>
  Claim C8, as amended. With \<open>num_tries = 1\<close>, \<open>best_clr\<close> makes one call of the selected
  optimizer from the same random state; it returns exactly that call's result and leaves the
  random state where the call left it when the call's objective is strictly below \<open>+inf\<close>,
  raises for the unbound names when the objective is \<open>+inf\<close> or NaN, and lets the call's own
  exception through.
\<close>

theorem best_clr_single_try:
  "best_clr clr_run fuzzy_run fuzzy 1 s =
     (case (if fuzzy then fuzzy_run else clr_run) s of
        Inl e \<Rightarrow> Inl e
      | Inr (r, s') \<Rightarrow> if obj_of r < PInf then Inr (r, s') else Inl UnboundLocalError)"
  by (cases "(if fuzzy then fuzzy_run else clr_run) s")
    (auto simp: best_clr_def split: prod.splits)

theorem best_clr_single_try_witness:
  "best_clr (scripted [Fin 2]) (scripted [Fin 5]) True 1 0 = Inr (([0], [], [], Fin 5), 1) \<and>
   best_clr (scripted [Fin 2]) (scripted [Fin 5]) False 1 0 = Inr (([0], [], [], Fin 2), 1)"
  using best_clr_single_try [of "scripted [Fin 2]" "scripted [Fin 5]" True 0]
    best_clr_single_try [of "scripted [Fin 2]" "scripted [Fin 5]" False 0]
  by (simp add: scripted_def)

text \<open>
  Claim C9. Over the runs a call makes: when no run has an objective strictly below \<open>+inf\<close>
  (none at all for \<open>num_tries \<le> 0\<close>, or every objective NaN or \<open>+inf\<close>), \<open>best_clr\<close> raises for
  its unbound result names, and only then; and whatever \<open>best_clr\<close> returns is one of the runs
  and its objective is not NaN.
\<close>

theorem best_clr_unbound:
  assumes "runs (if fuzzy then fuzzy_run else clr_run) (nat num_tries) s = Inr (rs, s')"
  shows "(best_clr clr_run fuzzy_run fuzzy num_tries s = Inl UnboundLocalError) =
           (\<forall>r\<in>set rs. obj_of r = NaN \<or> obj_of r = PInf) \<and>
         (\<forall>res s''. best_clr clr_run fuzzy_run fuzzy num_tries s = Inr (res, s'') \<longrightarrow>
            res \<in> set rs \<and> \<not> isnan (obj_of res) \<and> obj_of res < PInf)"
proof -
  obtain b best where fb: "foldl keep_better (PInf, None) rs = (b, best)"
    by (cases "foldl keep_better (PInf, None) rs")
  have inv: "best_inv rs (b, best)" using best_inv_foldl [of rs] fb by simp
  then have nn: "\<not> isnan b" and nb: "\<forall>j<length rs. \<not> obj_of (rs ! j) < b"
    by (simp_all add: best_inv_def)
  show ?thesis
  proof (cases best)
    case None
    then have "b = PInf" using inv by (simp add: best_inv_def)
    then have "\<forall>j<length rs. \<not> obj_of (rs ! j) < PInf" using nb by simp
    then have "\<forall>r\<in>set rs. \<not> obj_of r < PInf" by (metis in_set_conv_nth)
    then have "\<forall>r\<in>set rs. obj_of r = NaN \<or> obj_of r = PInf"
      by (simp add: fl_not_less_PInf)
    moreover have "best_clr clr_run fuzzy_run fuzzy num_tries s = Inl UnboundLocalError"
      using best_clr_runs [OF assms] fb None by simp
    ultimately show ?thesis by simp
  next
    case (Some t)
    obtain l m w where t: "t = (l, m, w)" by (cases t)
    obtain i where i: "i < length rs" "rs ! i = (l, m, w, b)" "b < PInf"
      using inv Some t by (auto simp: best_inv_def)
    have res: "best_clr clr_run fuzzy_run fuzzy num_tries s = Inr ((l, m, w, b), s')"
      using best_clr_runs [OF assms] fb Some t by simp
    have mem: "(l, m, w, b) \<in> set rs" using i(1,2) nth_mem by metis
    have "\<not> (obj_of (l, m, w, b) = NaN \<or> obj_of (l, m, w, b) = PInf)"
      using i(3) by (cases b) auto
    then have "\<not> (\<forall>r\<in>set rs. obj_of r = NaN \<or> obj_of r = PInf)"
      using mem by blast
    then show ?thesis using res mem nn i(3) by simp
  qed
qed

theorem best_clr_unbound_witness:
  "runs (if True then scripted [NaN, PInf, NaN] else scripted []) (nat 3) 0 =
     Inr ([([0], [], [], NaN), ([1], [], [], PInf), ([2], [], [], NaN)], 3) \<and>
   best_clr (scripted []) (scripted [NaN, PInf, NaN]) True 3 0 = Inl UnboundLocalError \<and>
   runs (if True then scripted [NaN, PInf, NaN] else scripted []) (nat 0) 0 = Inr ([], 0) \<and>
   best_clr (scripted []) (scripted [NaN, PInf, NaN]) True 0 0 = Inl UnboundLocalError"
  using best_clr_unbound [of True "scripted [NaN, PInf, NaN]" "scripted []" 3 0
      "[([0], [], [], NaN), ([1], [], [], PInf), ([2], [], [], NaN)]" 3]
    best_clr_unbound [of True "scripted [NaN, PInf, NaN]" "scripted []" 0 0 "[]" 0]
  by (simp add: scripted_def eval_nat_numeral)

end
